theory Spec2Isabelle
  imports Main "HOL-Library.Word"
begin

section \<open>Python built-ins used by transform\_species\_csv.py\<close>

text \<open>
  Text is a \<open>string\<close>: one \<open>char\<close> per code point, for code points below 256
  (every delimiter, keyword and digit the program looks at is ASCII).
  Exceptions are values: a computation that can raise has the type \<open>py_error + 'a\<close>.
\<close>

datatype py_error = ValueError | IndexError | KeyError

definition py_bind :: "py_error + 'a \<Rightarrow> ('a \<Rightarrow> py_error + 'b) \<Rightarrow> py_error + 'b" where
  "py_bind r f = (case r of Inl e \<Rightarrow> Inl e | Inr x \<Rightarrow> f x)"

text \<open>\<open>str.isspace\<close> on one code point below 256: 0x09-0x0D, 0x1C-0x20, 0x85, 0xA0.\<close>

definition is_space :: "char \<Rightarrow> bool" where
  "is_space c =
     (let n = (of_char c :: nat)
      in (9 \<le> n \<and> n \<le> 13) \<or> (28 \<le> n \<and> n \<le> 32) \<or> n = 133 \<or> n = 160)"

text \<open>\<open>s.strip()\<close>: whitespace removed at both ends.\<close>

definition strip :: "string \<Rightarrow> string" where
  "strip s = rev (dropWhile is_space (rev (dropWhile is_space s)))"

text \<open>\<open>s.startswith(p)\<close>.\<close>

fun startswith :: "string \<Rightarrow> string \<Rightarrow> bool" where
  "startswith [] s = True"
| "startswith (p # ps) [] = False"
| "startswith (p # ps) (c # cs) = (p = c \<and> startswith ps cs)"

text \<open>\<open>sub in s\<close> on strings: \<open>sub\<close> occurs in \<open>s\<close> as a contiguous substring.\<close>

fun contains :: "string \<Rightarrow> string \<Rightarrow> bool" where
  "contains sub [] = startswith sub []"
| "contains sub (c # cs) = (startswith sub (c # cs) \<or> contains sub cs)"

text \<open>\<open>s.split(sep)\<close> for a separator of one character: never the empty list.\<close>

fun split_on :: "char \<Rightarrow> string \<Rightarrow> string list" where
  "split_on sep [] = [[]]"
| "split_on sep (c # cs) =
     (if c = sep then [] # split_on sep cs
      else (case split_on sep cs of
              [] \<Rightarrow> [[c]]
            | p # ps \<Rightarrow> (c # p) # ps))"

text \<open>\<open>s.split(sep, 1)\<close>: split at the first separator only.\<close>

definition split_first :: "char \<Rightarrow> string \<Rightarrow> string list" where
  "split_first sep s =
     (if sep \<in> set s
      then [takeWhile (\<lambda>c. c \<noteq> sep) s, tl (dropWhile (\<lambda>c. c \<noteq> sep) s)]
      else [s])"

text \<open>\<open>sep.join(parts)\<close> for a separator of one character.\<close>

fun join :: "char \<Rightarrow> string list \<Rightarrow> string" where
  "join sep [] = []"
| "join sep [p] = p"
| "join sep (p # q # ps) = p @ sep # join sep (q # ps)"

text \<open>
  \<open>s.replace(old, new)\<close>: the text is scanned from the left; where \<open>old\<close> starts,
  \<open>new\<close> is written and the scan goes on behind the occurrence. An empty \<open>old\<close>
  matches before every character and at the end.
\<close>

function replace :: "string \<Rightarrow> string \<Rightarrow> string \<Rightarrow> string" where
  "replace old new s =
     (if old = [] then new @ concat (map (\<lambda>c. c # new) s)
      else if s = [] then []
      else if startswith old s then new @ replace old new (drop (length old) s)
      else hd s # replace old new (tl s))"
  by pat_completeness auto

termination
  by (relation "measure (\<lambda>(old, new, s). length s)") (auto simp: neq_Nil_conv)

declare replace.simps [simp del]

text \<open>\<open>xs[i]\<close> for an index that is not negative; out of range raises IndexError.\<close>

definition getitem :: "'a list \<Rightarrow> nat \<Rightarrow> py_error + 'a" where
  "getitem xs i = (if i < length xs then Inr (xs ! i) else Inl IndexError)"

text \<open>
  \<open>int(s)\<close> on a string, base 10. White space is skipped at both ends: the ASCII
  characters 0x09-0x0D and the space, and the white space beyond ASCII (0x85 and 0xA0 below
  256), which the interpreter turns into spaces first. The separators 0x1C-0x1F, which
  \<open>str.strip\<close> removes, are not skipped. Then one sign may lead, and decimal digits
  follow, where single underscores may stand between two digits. More than 4300 digits
  (the interpreter's default limit) and anything else raise ValueError.
\<close>

definition is_int_space :: "char \<Rightarrow> bool" where
  "is_int_space c =
     (let n = (of_char c :: nat)
      in (9 \<le> n \<and> n \<le> 13) \<or> n = 32 \<or> n = 133 \<or> n = 160)"

definition int_strip :: "string \<Rightarrow> string" where
  "int_strip s = rev (dropWhile is_int_space (rev (dropWhile is_int_space s)))"

definition max_str_digits :: nat where
  "max_str_digits = 4300"

definition is_digit :: "char \<Rightarrow> bool" where
  "is_digit c = (c \<in> set ''0123456789'')"

definition digit_val :: "char \<Rightarrow> int" where
  "digit_val c = int (of_char c) - 48"

fun digit_groups_ok :: "string \<Rightarrow> bool" where
  "digit_groups_ok [] = False"
| "digit_groups_ok [c] = is_digit c"
| "digit_groups_ok (c # d # cs) =
     (is_digit c \<and> (if d = CHR ''_'' then digit_groups_ok cs else digit_groups_ok (d # cs)))"

definition decimal_value :: "string \<Rightarrow> int" where
  "decimal_value s = foldl (\<lambda>acc c. 10 * acc + digit_val c) 0 (filter (\<lambda>c. c \<noteq> CHR ''_'') s)"

definition parse_digits :: "string \<Rightarrow> py_error + int" where
  "parse_digits s =
     (if digit_groups_ok s \<and> length (filter (\<lambda>c. c \<noteq> CHR ''_'') s) \<le> max_str_digits
      then Inr (decimal_value s) else Inl ValueError)"

definition py_int :: "string \<Rightarrow> py_error + int" where
  "py_int s =
     (case int_strip s of
        [] \<Rightarrow> Inl ValueError
      | c # cs \<Rightarrow>
          if c = CHR ''-'' then py_bind (parse_digits cs) (\<lambda>n. Inr (- n))
          else if c = CHR ''+'' then parse_digits cs
          else parse_digits (c # cs))"

text \<open>
  \<open>str(n)\<close> on an integer: decimal digits, a minus sign for a negative number.
  (The identifiers the program writes are below 2^64, far from the limit on digits.)
\<close>

function digits_of :: "nat \<Rightarrow> string" where
  "digits_of n =
     (if n < 10 then [''0123456789'' ! n]
      else digits_of (n div 10) @ [''0123456789'' ! (n mod 10)])"
  by pat_completeness auto

termination
  by (relation "measure (\<lambda>n. n)") auto

declare digits_of.simps [simp del]

definition py_str :: "int \<Rightarrow> string" where
  "py_str i = (if i < 0 then CHR ''-'' # digits_of (nat (- i)) else digits_of (nat i))"

section \<open>generate\_64bit\_id\<close>

text \<open>
  \<open>random.randint(a, b)\<close> is \<open>a + _randbelow(b - a + 1)\<close>, and \<open>_randbelow(n)\<close>
  draws \<open>getrandbits(k)\<close> for \<open>k = n.bit_length()\<close> until the value is below \<open>n\<close>.
  Both bounds the program uses have 64 bits, so the random source is the sequence of the
  results of \<open>getrandbits(64)\<close>: a list of 64-bit words. A computation that needs
  a word when the list is empty gives \<open>None\<close>: its loop had not ended when the given
  words ran out.
\<close>

type_synonym rng = "64 word list"

fun randbelow :: "int \<Rightarrow> rng \<Rightarrow> (int \<times> rng) option" where
  "randbelow n [] = None"
| "randbelow n (r # rs) = (if uint r \<ge> n then randbelow n rs else Some (uint r, rs))"

definition randint :: "int \<Rightarrow> int \<Rightarrow> rng \<Rightarrow> (int \<times> rng) option" where
  "randint a b g = map_option (\<lambda>(r, g'). (a + r, g')) (randbelow (b - a + 1) g)"

definition generate_64bit_id :: "bool \<Rightarrow> rng \<Rightarrow> (int \<times> rng) option" where
  "generate_64bit_id exclude_upper_10_billion g =
     (if exclude_upper_10_billion
      then (let max_val = 2 ^ 64 - 10 ^ 10 - 1 in randint 1 max_val g)
      else randint 1 (2 ^ 64 - 1) g)"

lemma randbelow_shorter: "randbelow n g = Some (r, g') \<Longrightarrow> length g' < length g"
  by (induction g) (auto split: if_splits)

lemma generate_64bit_id_shorter:
  "generate_64bit_id b g = Some (v, g') \<Longrightarrow> length g' < length g"
  by (auto simp: generate_64bit_id_def randint_def Let_def dest: randbelow_shorter split: if_splits)

section \<open>parse\_csv\_file\<close>

text \<open>
  The file is opened in text mode with the default \<open>newline\<close>: the line ends
  CR LF and CR are read as LF. Iterating over the file gives the lines, each with its
  LF (the last line may have none). The input of the model is the decoded text;
  of the encodings the program tries, latin1 decodes every file, so decoding does not fail.
\<close>

fun universal_newlines :: "string \<Rightarrow> string" where
  "universal_newlines [] = []"
| "universal_newlines [c] = (if c = CHR 0x0D then [CHR 0x0A] else [c])"
| "universal_newlines (c # d # cs) =
     (if c = CHR 0x0D
      then CHR 0x0A # (if d = CHR 0x0A then universal_newlines cs else universal_newlines (d # cs))
      else c # universal_newlines (d # cs))"

fun file_lines :: "string \<Rightarrow> string list" where
  "file_lines [] = []"
| "file_lines (c # cs) =
     (if c = CHR 0x0A then [c] # file_lines cs
      else (case file_lines cs of
              [] \<Rightarrow> [[c]]
            | l # ls \<Rightarrow> (c # l) # ls))"

record parser_state =
  metadata_lines :: "string list"
  data_rows :: "string list list"
  header_found :: bool

definition looks_like_header :: "string \<Rightarrow> bool" where
  "looks_like_header line =
     (contains ''SPECIES_NR'' line \<and> contains ''NAME'' line \<and> contains ''GENUS'' line)"

text \<open>The body of the loop over the lines (source lines 63 to 81).\<close>

definition parse_line :: "parser_state \<Rightarrow> string \<Rightarrow> parser_state" where
  "parse_line st raw =
     (let line = strip raw in
      if line = [] then st
      else if CHR '';'' \<in> set line \<and> \<not> header_found st then
        (if looks_like_header line
         then st\<lparr>header_found := True\<rparr>
         else st\<lparr>metadata_lines := metadata_lines st @ [line]\<rparr>)
      else if header_found st then
        (let parts = split_on CHR '';'' line
         in if length parts \<ge> 8 then st\<lparr>data_rows := data_rows st @ [parts]\<rparr> else st)
      else st)"

definition initial_state :: parser_state where
  "initial_state = \<lparr>metadata_lines = [], data_rows = [], header_found = False\<rparr>"

definition parse_csv_file :: "string \<Rightarrow> string list \<times> string list list" where
  "parse_csv_file text =
     (let st = foldl parse_line initial_state (file_lines (universal_newlines text))
      in (metadata_lines st, data_rows st))"

section \<open>transform\_species\_csv\<close>

subsection \<open>Metadata (source lines 108 to 120)\<close>

definition update_metadata_line :: "string \<Rightarrow> string" where
  "update_metadata_line line =
     (if startswith ''SPECIES_LU_VERSION'' line then
        (let parts = split_first CHR '';'' line
         in if length parts = 2 then ''SPECIES_LU;'' @ parts ! 1
            else replace ''SPECIES_LU_VERSION'' ''SPECIES_LU'' line)
      else line)"

subsection \<open>First pass: the mapping of old to new identifiers (source lines 122 to 151)\<close>

text \<open>
  The dictionary \<open>old_to_new_id\<close> is a map, \<open>used_ids\<close> a set; both are passed on
  with the random source.
\<close>

type_synonym id_map = "int \<rightharpoonup> int"

type_synonym id_state = "id_map \<times> int set \<times> rng"

text \<open>A new identifier is drawn, and drawn again while it is in \<open>used_ids\<close>.\<close>

function fresh_id :: "int set \<Rightarrow> rng \<Rightarrow> (int \<times> rng) option" where
  "fresh_id used_ids g =
     (case generate_64bit_id True g of
        None \<Rightarrow> None
      | Some (new_id, g') \<Rightarrow>
          if new_id \<in> used_ids then fresh_id used_ids g' else Some (new_id, g'))"
  by pat_completeness auto

termination fresh_id
  by (relation "measure (\<lambda>(u, g). length g)") (auto dest: generate_64bit_id_shorter)

declare fresh_id.simps [simp del]

text \<open>The block the source writes twice (lines 134 to 139 and 142 to 147).\<close>

definition assign_id :: "int \<Rightarrow> id_state \<Rightarrow> id_state option" where
  "assign_id old_nr s =
     (case s of (old_to_new_id, used_ids, g) \<Rightarrow>
        if old_to_new_id old_nr = None then
          (case fresh_id used_ids g of
             None \<Rightarrow> None
           | Some (new_id, g') \<Rightarrow>
               Some (old_to_new_id(old_nr \<mapsto> new_id), insert new_id used_ids, g'))
        else Some s)"

text \<open>
  The two identifiers a row contributes (the body of the \<open>try\<close> up to the first
  insertion): both are parsed before anything is stored.
\<close>

definition row_ids :: "string list \<Rightarrow> py_error + int \<times> int" where
  "row_ids row =
     py_bind (py_bind (getitem row 0) py_int) (\<lambda>old_species_nr.
     py_bind (if length row > 6 then py_bind (getitem row 6) py_int else Inr old_species_nr)
       (\<lambda>old_valid_nr. Inr (old_species_nr, old_valid_nr)))"

definition first_pass_row :: "id_state \<Rightarrow> string list \<Rightarrow> id_state option" where
  "first_pass_row s row =
     (if length row \<ge> 7 then
        (case row_ids row of
           Inl e \<Rightarrow> Some s
         | Inr (old_species_nr, old_valid_nr) \<Rightarrow>
             Option.bind (assign_id old_species_nr s) (assign_id old_valid_nr))
      else Some s)"

fun first_pass :: "id_state \<Rightarrow> string list list \<Rightarrow> id_state option" where
  "first_pass s [] = Some s"
| "first_pass s (row # rows) = Option.bind (first_pass_row s row) (\<lambda>s'. first_pass s' rows)"

definition build_id_map :: "string list list \<Rightarrow> rng \<Rightarrow> id_state option" where
  "build_id_map rows g = first_pass (Map.empty, {}, g) rows"

subsection \<open>Second pass: the transformed rows (source lines 155 to 198)\<close>

definition lookup :: "id_map \<Rightarrow> int \<Rightarrow> py_error + int" where
  "lookup d k = (case d k of None \<Rightarrow> Inl KeyError | Some v \<Rightarrow> Inr v)"

text \<open>The body of the \<open>try\<close>, in the order of the source.\<close>

definition new_row :: "id_map \<Rightarrow> string list \<Rightarrow> py_error + string list" where
  "new_row old_to_new_id row =
     py_bind (py_bind (getitem row 0) py_int) (\<lambda>old_species_nr.
     py_bind (getitem row 1) (\<lambda>name.
     py_bind (getitem row 2) (\<lambda>genus.
     py_bind (getitem row 3) (\<lambda>species.
     py_bind (getitem row 5) (\<lambda>synonym.
     py_bind (py_bind (getitem row 6) py_int) (\<lambda>old_valid_nr.
     py_bind (getitem row 7) (\<lambda>valid_name.
     py_bind (lookup old_to_new_id old_species_nr) (\<lambda>new_species_nr.
     py_bind (lookup old_to_new_id old_valid_nr) (\<lambda>new_valid_nr.
     (let parent_nr = []; parent_name = []
      in Inr [py_str new_species_nr, name, genus, species, synonym, py_str new_valid_nr,
              valid_name, (if parent_nr \<noteq> [] then parent_nr else []), parent_name]
     ))))))))))"

text \<open>
  What the loop does with one row: too short, nothing; ValueError and IndexError are
  caught and the row is skipped with a warning; KeyError is not caught and ends the run.
\<close>

datatype row_outcome = TooShort | Skipped py_error | Emitted "string list" | Raised py_error

definition transform_row :: "id_map \<Rightarrow> string list \<Rightarrow> row_outcome" where
  "transform_row old_to_new_id row =
     (if length row \<ge> 8 then
        (case new_row old_to_new_id row of
           Inr r \<Rightarrow> Emitted r
         | Inl e \<Rightarrow> if e = ValueError \<or> e = IndexError then Skipped e else Raised e)
      else TooShort)"

fun transform_rows :: "id_map \<Rightarrow> string list list \<Rightarrow> py_error + string list list" where
  "transform_rows d [] = Inr []"
| "transform_rows d (row # rows) =
     (case transform_row d row of
        Emitted r \<Rightarrow> py_bind (transform_rows d rows) (\<lambda>rs. Inr (r # rs))
      | Raised e \<Rightarrow> Inl e
      | _ \<Rightarrow> transform_rows d rows)"

subsection \<open>Writing the output (source lines 200 to 222)\<close>

definition new_header :: string where
  "new_header = ''SPECIES_NR;NAME;GENUS;SPECIES;SYNONYM;VALID_NR;VALID_NAME;PARENT_NR;PARENT_NAME''"

text \<open>Every line is written with a line feed.\<close>

definition write_lines :: "string list \<Rightarrow> string" where
  "write_lines ls = concat (map (\<lambda>l. l @ [CHR 0x0A]) ls)"

definition serialize :: "string list \<Rightarrow> string list list \<Rightarrow> string" where
  "serialize new_metadata transformed_rows =
     write_lines new_metadata @ write_lines [new_header]
       @ write_lines (map (join CHR '';'') transformed_rows)"

definition normalize_booleans :: "string \<Rightarrow> string" where
  "normalize_booleans content =
     replace '';FALSCH;'' '';FALSE;'' (replace '';WAHR;'' '';TRUE;'' content)"

text \<open>
  The whole function, from the decoded text of the input file to the text written to the
  output file (read back in text mode before the substitution). \<open>None\<close>: the random
  words ran out in the first pass; \<open>Some (Inl e)\<close>: the run ended with the exception \<open>e\<close>.
\<close>

definition transform_species_csv :: "string \<Rightarrow> rng \<Rightarrow> (py_error + string) option" where
  "transform_species_csv text g =
     (case parse_csv_file text of (metadata, rows) \<Rightarrow>
        (let new_metadata = map update_metadata_line metadata
         in case build_id_map rows g of
              None \<Rightarrow> None
            | Some (old_to_new_id, used_ids, g') \<Rightarrow>
                Some (py_bind (transform_rows old_to_new_id rows) (\<lambda>transformed_rows.
                  Inr (normalize_booleans
                         (universal_newlines (serialize new_metadata transformed_rows)))))))"

section \<open>Invariants, and notions of the specification\<close>

text \<open>
  What the first pass keeps true: the values of the mapping are the used identifiers,
  no value is taken twice, and every value is in the range of the generator.
\<close>

definition id_inv :: "id_state \<Rightarrow> bool" where
  "id_inv s =
     (case s of (m, used, g) \<Rightarrow>
        ran m = used \<and> inj_on m (dom m) \<and> (\<forall>v \<in> used. 1 \<le> v \<and> v \<le> 2 ^ 64 - 10 ^ 10 - 1))"

text \<open>No carriage return is stored by the parser.\<close>

definition no_cr :: "parser_state \<Rightarrow> bool" where
  "no_cr st =
     ((\<forall>l \<in> set (metadata_lines st). CHR 0x0D \<notin> set l)
      \<and> (\<forall>row \<in> set (data_rows st). \<forall>f \<in> set row. CHR 0x0D \<notin> set f))"




section \<open>The scenario of the specification and further inputs\<close>

text \<open>The two raw rows of the end-to-end scenario, and a mapping for their identifiers.\<close>

definition example_rows :: "string list list" where
  "example_rows =
     [[''1'', ''Alpha'', ''Genus1'', ''sp1'', ''AuthorA'', ''FALSCH'', ''1'', ''Alpha'', ''SecA''],
      [''2'', ''Beta'', ''Genus1'', ''sp2'', ''AuthorB'', ''WAHR'', ''1'', ''Alpha'', ''SecB'']]"

definition example_map :: id_map where
  "example_map = [1 \<mapsto> 7, 2 \<mapsto> 42]"

text \<open>The header line of the legacy format, and the input text of the scenario.\<close>

definition old_header :: string where
  "old_header = ''SPECIES_NR;NAME;GENUS;SPECIES;AUTHOR;SYNONYM;VALID_NR;VALID_NAME;SECUNDUM''"

definition example_text :: string where
  "example_text =
     old_header @ [CHR 0x0A]
     @ ''1;Alpha;Genus1;sp1;AuthorA;FALSCH;1;Alpha;SecA'' @ [CHR 0x0A]
     @ ''2;Beta;Genus1;sp2;AuthorB;WAHR;1;Alpha;SecB'' @ [CHR 0x0A]"

text \<open>A data row whose species epithet and synonym flag are both WAHR.\<close>

definition example_overlap :: string where
  "example_overlap = old_header @ [CHR 0x0A] @ ''1;N;G;WAHR;A;WAHR;1;N'' @ [CHR 0x0A]"

text \<open>An input without a header line: two metadata lines and a line without a semicolon.\<close>

definition example_metadata_only :: string where
  "example_metadata_only =
     ''NOTE;WAHR;x'' @ [CHR 0x0A] @ ''SPECIES_LU_VERSION;3.2'' @ [CHR 0x0D, CHR 0x0A]
       @ ''plain'' @ [CHR 0x0A]"



text \<open>An input of one metadata line with white space at both ends.\<close>

definition example_metadata_spaces :: string where
  "example_metadata_spaces = ''  NOTE;x  '' @ [CHR 0x0A]"


section \<open>The row transformer\<close>

lemma py_bind_Inl [simp]: "py_bind (Inl e) f = Inl e"
  by (simp add: py_bind_def)

lemma py_bind_Inr [simp]: "py_bind (Inr x) f = f x"
  by (simp add: py_bind_def)

lemma py_bind_eq_Inr: "py_bind r f = Inr y \<longleftrightarrow> (\<exists>x. r = Inr x \<and> f x = Inr y)"
  by (cases r) auto

lemma py_bind_eq_Inl: "py_bind r f = Inl e \<longleftrightarrow> r = Inl e \<or> (\<exists>x. r = Inr x \<and> f x = Inl e)"
  by (cases r) auto

lemma getitem_in_range [simp]: "i < length xs \<Longrightarrow> getitem xs i = Inr (xs ! i)"
  by (simp add: getitem_def)

lemma parse_digits_error: "parse_digits s = Inl e \<Longrightarrow> e = ValueError"
  by (auto simp: parse_digits_def split: if_splits)

lemma py_int_error: "py_int s = Inl e \<Longrightarrow> e = ValueError"
  by (auto simp: py_int_def py_bind_eq_Inl dest: parse_digits_error split: list.splits if_splits)

lemma lookup_Inr: "lookup d k = Inr v \<longleftrightarrow> d k = Some v"
  by (auto simp: lookup_def split: option.splits)

lemma lookup_Inl: "lookup d k = Inl e \<longleftrightarrow> d k = None \<and> e = KeyError"
  by (auto simp: lookup_def split: option.splits)

lemma new_row_long:
  "8 \<le> length row \<Longrightarrow>
   new_row d row =
     py_bind (py_int (row ! 0)) (\<lambda>a.
     py_bind (py_int (row ! 6)) (\<lambda>v.
     py_bind (lookup d a) (\<lambda>na.
     py_bind (lookup d v) (\<lambda>nv.
       Inr [py_str na, row ! 1, row ! 2, row ! 3, row ! 5, py_str nv, row ! 7, [], []]))))"
proof -
  assume "8 \<le> length row"
  then have "0 < length row" "1 < length row" "2 < length row" "3 < length row"
    "5 < length row" "6 < length row" "7 < length row"
    by auto
  then show ?thesis
    by (simp add: new_row_def getitem_def)
qed

lemma new_row_Inr:
  assumes "8 \<le> length row"
  shows "new_row d row = Inr r \<longleftrightarrow>
     (\<exists>a v na nv. py_int (row ! 0) = Inr a \<and> py_int (row ! 6) = Inr v \<and> d a = Some na \<and> d v = Some nv
        \<and> r = [py_str na, row ! 1, row ! 2, row ! 3, row ! 5, py_str nv, row ! 7, [], []])"
  by (auto simp: new_row_long [OF assms] py_bind_eq_Inr lookup_Inr)

lemma transform_row_Emitted:
  "transform_row d row = Emitted r \<longleftrightarrow>
     8 \<le> length row \<and>
     (\<exists>a v na nv. py_int (row ! 0) = Inr a \<and> py_int (row ! 6) = Inr v \<and> d a = Some na \<and> d v = Some nv
        \<and> r = [py_str na, row ! 1, row ! 2, row ! 3, row ! 5, py_str nv, row ! 7, [], []])"
proof (cases "8 \<le> length row")
  case True
  have "transform_row d row = Emitted r \<longleftrightarrow> new_row d row = Inr r"
    using True by (auto simp: transform_row_def split: sum.splits)
  then show ?thesis using True new_row_Inr [OF True] by simp
next
  case False
  then show ?thesis by (simp add: transform_row_def)
qed

lemma transform_row_Skipped:
  "transform_row d row = Skipped e \<longleftrightarrow>
     8 \<le> length row \<and> e = ValueError \<and>
     (py_int (row ! 0) = Inl ValueError \<or> (\<exists>a. py_int (row ! 0) = Inr a \<and> py_int (row ! 6) = Inl ValueError))"
proof (cases "8 \<le> length row")
  case True
  show ?thesis
    using True
    by (auto simp: transform_row_def new_row_long py_bind_eq_Inl lookup_Inl py_bind_eq_Inr
       dest: py_int_error split: sum.splits)
next
  case False
  then show ?thesis by (simp add: transform_row_def)
qed

lemma transform_row_Raised:
  "transform_row d row = Raised e \<longleftrightarrow>
     8 \<le> length row \<and> e = KeyError \<and>
     (\<exists>a v. py_int (row ! 0) = Inr a \<and> py_int (row ! 6) = Inr v \<and> (d a = None \<or> d v = None))"
proof (cases "8 \<le> length row")
  case True
  show ?thesis
    using True
    apply (auto simp: transform_row_def new_row_long py_bind_eq_Inl lookup_Inl py_bind_eq_Inr lookup_Inr
       dest: py_int_error split: sum.splits)
    done
next
  case False
  then show ?thesis by (simp add: transform_row_def)
qed

lemma py_int_1: "py_int ''1'' = Inr 1"
  by (simp add: py_int_def int_strip_def is_int_space_def parse_digits_def is_digit_def
      max_str_digits_def decimal_value_def digit_val_def)

lemma py_int_2: "py_int ''2'' = Inr 2"
  by (simp add: py_int_def int_strip_def is_int_space_def parse_digits_def is_digit_def
      max_str_digits_def decimal_value_def digit_val_def)

lemma py_int_5: "py_int ''5'' = Inr 5"
  by (simp add: py_int_def int_strip_def is_int_space_def parse_digits_def is_digit_def
      max_str_digits_def decimal_value_def digit_val_def)

lemma py_int_x: "py_int ''x'' = Inl ValueError"
  by (simp add: py_int_def int_strip_def is_int_space_def parse_digits_def is_digit_def)

text \<open>The file separator 0x1C after a digit: \<open>str.strip\<close> would remove it, \<open>int\<close> raises.\<close>

lemma py_int_separator: "py_int [CHR ''5'', CHR 0x1C] = Inl ValueError"
  by (simp add: py_int_def int_strip_def is_int_space_def parse_digits_def is_digit_def)

lemma py_int_spaces: "py_int [CHR 0xA0, CHR ''+'', CHR ''1'', CHR ''_'', CHR ''0'', CHR 0x0A] = Inr 10"
  by (simp add: py_int_def int_strip_def is_int_space_def parse_digits_def is_digit_def
      max_str_digits_def decimal_value_def digit_val_def)

lemma py_str_7: "py_str 7 = ''7''"
  by (simp add: py_str_def digits_of.simps)

lemma py_str_42: "py_str 42 = ''42''"
  by (simp add: py_str_def digits_of.simps)

text \<open>
  C5. Every transformed row has exactly nine fields, in this order: the text of the image
  of the own identifier (field 0 of the raw row) under the mapping, the fields 1, 2, 3 and
  5 of the raw row as they are, the text of the image of the valid identifier (field 6)
  under the mapping, the field 7 of the raw row as it is, and two empty fields for the
  parent. The author (field 4) and whatever follows field 7 have no influence on the outcome.
\<close>

theorem transformed_row_layout:
  assumes "transform_row d row = Emitted r"
  shows "length r = 9
     \<and> (\<exists>a v na nv.
           py_int (row ! 0) = Inr a \<and> d a = Some na
         \<and> py_int (row ! 6) = Inr v \<and> d v = Some nv
         \<and> r = [py_str na, row ! 1, row ! 2, row ! 3, row ! 5, py_str nv, row ! 7, [], []])
     \<and> r ! 1 = row ! 1 \<and> r ! 2 = row ! 2 \<and> r ! 3 = row ! 3 \<and> r ! 4 = row ! 5 \<and> r ! 6 = row ! 7
     \<and> r ! 7 = [] \<and> r ! 8 = []
     \<and> transform_row d (row[4 := author]) = Emitted r
     \<and> transform_row d (take 8 row @ rest) = Emitted r"
proof -
  from assms obtain a v na nv where len: "8 \<le> length row"
    and ids: "py_int (row ! 0) = Inr a" "py_int (row ! 6) = Inr v" "d a = Some na" "d v = Some nv"
    and r: "r = [py_str na, row ! 1, row ! 2, row ! 3, row ! 5, py_str nv, row ! 7, [], []]"
    unfolding transform_row_Emitted by blast
  have upd: "transform_row d (row[4 := author]) = Emitted r"
    unfolding transform_row_Emitted using len ids r by simp
  have "\<And>i. i < 8 \<Longrightarrow> (take 8 row @ rest) ! i = row ! i"
    using len by (simp add: nth_append)
  then have cut: "transform_row d (take 8 row @ rest) = Emitted r"
    unfolding transform_row_Emitted using len ids r by simp
  have "\<exists>a v na nv.
           py_int (row ! 0) = Inr a \<and> d a = Some na
         \<and> py_int (row ! 6) = Inr v \<and> d v = Some nv
         \<and> r = [py_str na, row ! 1, row ! 2, row ! 3, row ! 5, py_str nv, row ! 7, [], []]"
    using ids r by blast
  moreover have "length r = 9" "r ! 1 = row ! 1" "r ! 2 = row ! 2" "r ! 3 = row ! 3"
    "r ! 4 = row ! 5" "r ! 6 = row ! 7" "r ! 7 = []" "r ! 8 = []"
    using r by simp_all
  ultimately show ?thesis using upd cut by blast
qed

theorem transformed_row_layout_witness:
  "transform_row example_map
      [''2'', ''Beta'', ''Genus1'', ''sp2'', ''AuthorB'', ''WAHR'', ''1'', ''Alpha'', ''SecB'']
     = Emitted [''42'', ''Beta'', ''Genus1'', ''sp2'', ''WAHR'', ''7'', ''Alpha'', [], []]
   \<and> py_int ''2'' = Inr 2 \<and> example_map 2 = Some 42 \<and> py_str 42 = ''42''
   \<and> py_int ''1'' = Inr 1 \<and> example_map 1 = Some 7 \<and> py_str 7 = ''7''
   \<and> transform_row example_map
      [''2'', ''Beta'', ''Genus1'', ''sp2'', ''Someone else'', ''WAHR'', ''1'', ''Alpha'', ''SecB'']
     = Emitted [''42'', ''Beta'', ''Genus1'', ''sp2'', ''WAHR'', ''7'', ''Alpha'', [], []]
   \<and> transform_row example_map
      [''2'', ''Beta'', ''Genus1'', ''sp2'', ''AuthorB'', ''WAHR'', ''1'', ''Alpha'']
     = Emitted [''42'', ''Beta'', ''Genus1'', ''sp2'', ''WAHR'', ''7'', ''Alpha'', [], []]"
proof -
  have h: "transform_row example_map
      [''2'', ''Beta'', ''Genus1'', ''sp2'', ''AuthorB'', ''WAHR'', ''1'', ''Alpha'', ''SecB'']
     = Emitted [''42'', ''Beta'', ''Genus1'', ''sp2'', ''WAHR'', ''7'', ''Alpha'', [], []]"
    by (simp add: transform_row_Emitted example_map_def py_int_1 py_int_2 py_str_7 py_str_42)
  note t = transformed_row_layout [OF h, of "''Someone else''" "[]"]
  from t obtain a v na nv where
    "py_int ([''2'', ''Beta'', ''Genus1'', ''sp2'', ''AuthorB'', ''WAHR'', ''1'', ''Alpha'', ''SecB''] ! 0) = Inr a"
    "example_map a = Some na"
    "py_int ([''2'', ''Beta'', ''Genus1'', ''sp2'', ''AuthorB'', ''WAHR'', ''1'', ''Alpha'', ''SecB''] ! 6) = Inr v"
    "example_map v = Some nv"
    "[''42'', ''Beta'', ''Genus1'', ''sp2'', ''WAHR'', ''7'', ''Alpha'', [], []]
       = [py_str na, ''Beta'', ''Genus1'', ''sp2'', ''WAHR'', py_str nv, ''Alpha'', [], []]"
    by auto
  then have ids: "py_int ''2'' = Inr 2 \<and> example_map 2 = Some 42 \<and> py_str 42 = ''42''
      \<and> py_int ''1'' = Inr 1 \<and> example_map 1 = Some 7 \<and> py_str 7 = ''7''"
    by (auto simp: py_int_1 py_int_2 example_map_def split: if_splits)
  from t have rest: "transform_row example_map
      [''2'', ''Beta'', ''Genus1'', ''sp2'', ''Someone else'', ''WAHR'', ''1'', ''Alpha'', ''SecB'']
     = Emitted [''42'', ''Beta'', ''Genus1'', ''sp2'', ''WAHR'', ''7'', ''Alpha'', [], []]"
    "transform_row example_map
      [''2'', ''Beta'', ''Genus1'', ''sp2'', ''AuthorB'', ''WAHR'', ''1'', ''Alpha'']
     = Emitted [''42'', ''Beta'', ''Genus1'', ''sp2'', ''WAHR'', ''7'', ''Alpha'', [], []]"
    by simp_all
  from h ids rest show ?thesis by (intro conjI) simp_all
qed

lemma transform_rows_Inr:
  "transform_rows d rows = Inr rs \<Longrightarrow> r \<in> set rs \<Longrightarrow> \<exists>row \<in> set rows. transform_row d row = Emitted r"
proof (induction rows arbitrary: rs)
  case Nil
  then show ?case by simp
next
  case (Cons row rows)
  show ?case
  proof (cases "transform_row d row")
    case (Emitted x)
    with Cons.prems obtain rs' where "transform_rows d rows = Inr rs'" "rs = x # rs'"
      by (auto simp: py_bind_eq_Inr)
    with Cons.IH [of rs'] Cons.prems Emitted show ?thesis by auto
  next
    case TooShort
    with Cons show ?thesis by auto
  next
    case (Skipped e)
    with Cons show ?thesis by auto
  next
    case (Raised e)
    with Cons show ?thesis by auto
  qed
qed

text \<open>
  C2. Every row the second pass emits comes from a raw row whose own and valid identifier
  both parse and are keys of the mapping; its field 0 is the text of the image of the own
  identifier and its field 5 the text of the image of the valid identifier, under the one
  mapping. Where the two old identifiers are equal, so are the two new fields.
\<close>

theorem referential_integrity:
  assumes "transform_rows d rows = Inr rs" and "r \<in> set rs"
  shows "\<exists>row \<in> set rows. \<exists>a v na nv.
           transform_row d row = Emitted r
         \<and> py_int (row ! 0) = Inr a \<and> py_int (row ! 6) = Inr v
         \<and> d a = Some na \<and> d v = Some nv
         \<and> r ! 0 = py_str na \<and> r ! 5 = py_str nv
         \<and> (a = v \<longrightarrow> r ! 0 = r ! 5)"
proof -
  from transform_rows_Inr [OF assms] obtain row where
    row: "row \<in> set rows" "transform_row d row = Emitted r"
    by blast
  from row(2) obtain a v na nv where
    "py_int (row ! 0) = Inr a" "py_int (row ! 6) = Inr v" "d a = Some na" "d v = Some nv"
    "r = [py_str na, row ! 1, row ! 2, row ! 3, row ! 5, py_str nv, row ! 7, [], []]"
    unfolding transform_row_Emitted by blast
  with row show ?thesis by (intro bexI [of _ row]) auto
qed

lemma example_rows_transformed:
  "transform_rows example_map example_rows
     = Inr [[''7'', ''Alpha'', ''Genus1'', ''sp1'', ''FALSCH'', ''7'', ''Alpha'', [], []],
            [''42'', ''Beta'', ''Genus1'', ''sp2'', ''WAHR'', ''7'', ''Alpha'', [], []]]"
proof -
  have r1: "transform_row example_map
      [''1'', ''Alpha'', ''Genus1'', ''sp1'', ''AuthorA'', ''FALSCH'', ''1'', ''Alpha'', ''SecA'']
     = Emitted [''7'', ''Alpha'', ''Genus1'', ''sp1'', ''FALSCH'', ''7'', ''Alpha'', [], []]"
    by (simp add: transform_row_Emitted example_map_def py_int_1 py_str_7)
  have r2: "transform_row example_map
      [''2'', ''Beta'', ''Genus1'', ''sp2'', ''AuthorB'', ''WAHR'', ''1'', ''Alpha'', ''SecB'']
     = Emitted [''42'', ''Beta'', ''Genus1'', ''sp2'', ''WAHR'', ''7'', ''Alpha'', [], []]"
    by (simp add: transform_row_Emitted example_map_def py_int_1 py_int_2 py_str_7 py_str_42)
  show ?thesis
    by (simp add: example_rows_def r1 r2)
qed

theorem referential_integrity_witness:
  "transform_rows example_map example_rows
     = Inr [[''7'', ''Alpha'', ''Genus1'', ''sp1'', ''FALSCH'', ''7'', ''Alpha'', [], []],
            [''42'', ''Beta'', ''Genus1'', ''sp2'', ''WAHR'', ''7'', ''Alpha'', [], []]]
   \<and> (\<exists>row \<in> set example_rows. \<exists>a v na nv.
           transform_row example_map row
             = Emitted [''42'', ''Beta'', ''Genus1'', ''sp2'', ''WAHR'', ''7'', ''Alpha'', [], []]
         \<and> py_int (row ! 0) = Inr a \<and> py_int (row ! 6) = Inr v
         \<and> example_map a = Some na \<and> example_map v = Some nv
         \<and> [''42'', ''Beta'', ''Genus1'', ''sp2'', ''WAHR'', ''7'', ''Alpha'', [], []] ! 0 = py_str na
         \<and> [''42'', ''Beta'', ''Genus1'', ''sp2'', ''WAHR'', ''7'', ''Alpha'', [], []] ! 5 = py_str nv
         \<and> (a = v \<longrightarrow>
              [''42'', ''Beta'', ''Genus1'', ''sp2'', ''WAHR'', ''7'', ''Alpha'', [], []] ! 0
              = [''42'', ''Beta'', ''Genus1'', ''sp2'', ''WAHR'', ''7'', ''Alpha'', [], []] ! 5))"
proof -
  have m: "[''42'', ''Beta'', ''Genus1'', ''sp2'', ''WAHR'', ''7'', ''Alpha'', [], []]
     \<in> set [[''7'', ''Alpha'', ''Genus1'', ''sp1'', ''FALSCH'', ''7'', ''Alpha'', [], []],
          [''42'', ''Beta'', ''Genus1'', ''sp2'', ''WAHR'', ''7'', ''Alpha'', [], []]]"
    by simp
  show ?thesis
    by (rule conjI [OF example_rows_transformed
          referential_integrity [OF example_rows_transformed m]])
qed

section \<open>The first pass\<close>

lemma randbelow_range: "randbelow n g = Some (r, g') \<Longrightarrow> 0 \<le> r \<and> r < n"
  by (induction g) (auto split: if_splits)

lemma generate_64bit_id_range:
  "generate_64bit_id True g = Some (v, g') \<Longrightarrow> 1 \<le> v \<and> v \<le> 2 ^ 64 - 10 ^ 10 - 1"
  by (auto simp: generate_64bit_id_def randint_def Let_def dest!: randbelow_range)

lemma fresh_id_Some:
  "fresh_id used g = Some (v, g') \<Longrightarrow> v \<notin> used \<and> 1 \<le> v \<and> v \<le> 2 ^ 64 - 10 ^ 10 - 1"
proof (induction used g rule: fresh_id.induct)
  case (1 used g)
  from "1.prems" obtain w g1 where gen: "generate_64bit_id True g = Some (w, g1)"
    by (subst (asm) fresh_id.simps) (auto split: option.splits)
  show ?case
  proof (cases "w \<in> used")
    case True
    with gen "1.prems" have "fresh_id used g1 = Some (v, g')"
      by (subst (asm) fresh_id.simps) simp
    with "1.IH" [OF gen _ True] show ?thesis by simp
  next
    case False
    with gen "1.prems" have "v = w"
      by (subst (asm) fresh_id.simps) simp
    with False generate_64bit_id_range [OF gen] show ?thesis by simp
  qed
qed

text \<open>
  The loop that draws a new identifier ends as soon as the random source gives a word
  below the bound whose identifier is not used; it goes on otherwise.
\<close>

lemma fresh_id_Nil: "fresh_id used [] = None"
  by (subst fresh_id.simps) (simp add: generate_64bit_id_def randint_def)

lemma fresh_id_Cons:
  "fresh_id used (w # ws) =
     (if uint w < 2 ^ 64 - 10 ^ 10 - 1 \<and> 1 + uint w \<notin> used
      then Some (1 + uint w, ws) else fresh_id used ws)"
proof (cases "uint w < 2 ^ 64 - 10 ^ 10 - 1")
  case True
  then have "generate_64bit_id True (w # ws) = Some (1 + uint w, ws)"
    by (simp add: generate_64bit_id_def randint_def)
  with True show ?thesis
    by (subst fresh_id.simps) simp
next
  case False
  then have "generate_64bit_id True (w # ws) = generate_64bit_id True ws"
    by (simp add: generate_64bit_id_def randint_def)
  then have "fresh_id used (w # ws) = fresh_id used ws"
    by (subst fresh_id.simps, subst (2) fresh_id.simps) simp
  with False show ?thesis by simp
qed

lemma fresh_id_returns:
  "\<exists>w \<in> set g. uint w < 2 ^ 64 - 10 ^ 10 - 1 \<and> 1 + uint w \<notin> used \<Longrightarrow>
     \<exists>v g'. fresh_id used g = Some (v, g')"
  by (induction g) (auto simp: fresh_id_Cons)

lemma id_inv_empty: "id_inv (Map.empty, {}, g)"
  by (simp add: id_inv_def)

lemma assign_id_inv:
  assumes "assign_id k s = Some s'" and "id_inv s"
  shows "id_inv s' \<and> dom (fst s') = insert k (dom (fst s))"
proof -
  obtain m used g where s: "s = (m, used, g)" by (cases s)
  show ?thesis
  proof (cases "m k")
    case (Some x)
    with assms s show ?thesis by (auto simp: assign_id_def)
  next
    case None
    with assms(1) s obtain v g1 where fr: "fresh_id used g = Some (v, g1)"
      and s': "s' = (m(k \<mapsto> v), insert v used, g1)"
      by (auto simp: assign_id_def split: option.splits)
    from fresh_id_Some [OF fr] have v: "v \<notin> used" "1 \<le> v" "v \<le> 2 ^ 64 - 10 ^ 10 - 1"
      by simp_all
    from assms(2) s have inv: "ran m = used" "inj_on m (dom m)"
      "\<forall>v \<in> used. 1 \<le> v \<and> v \<le> 2 ^ 64 - 10 ^ 10 - 1"
      by (simp_all add: id_inv_def)
    have "ran (m(k \<mapsto> v)) = insert v used"
      using None inv(1) by simp
    moreover have "inj_on (m(k \<mapsto> v)) (dom (m(k \<mapsto> v)))"
      using None inv(1,2) v(1) by (auto simp: inj_on_def ran_def dom_def)
    ultimately show ?thesis
      using s s' v inv(3) by (simp add: id_inv_def)
  qed
qed

lemma row_ids_long:
  "7 \<le> length row \<Longrightarrow>
   row_ids row =
     py_bind (py_int (row ! 0)) (\<lambda>a. py_bind (py_int (row ! 6)) (\<lambda>v. Inr (a, v)))"
proof -
  assume "7 \<le> length row"
  then have "0 < length row" "6 < length row" by auto
  then show ?thesis by (simp add: row_ids_def getitem_def)
qed

lemma first_pass_row_inv:
  assumes "first_pass_row s row = Some s'" and "id_inv s"
  shows "id_inv s' \<and> dom (fst s) \<subseteq> dom (fst s')
     \<and> (7 \<le> length row \<longrightarrow> (\<forall>a v. py_int (row ! 0) = Inr a \<and> py_int (row ! 6) = Inr v
            \<longrightarrow> a \<in> dom (fst s') \<and> v \<in> dom (fst s')))"
proof (cases "7 \<le> length row")
  case False
  with assms show ?thesis by (simp add: first_pass_row_def)
next
  case True
  show ?thesis
  proof (cases "row_ids row")
    case (Inl e)
    with True assms have "s' = s" by (simp add: first_pass_row_def)
    moreover from Inl have "\<not> (\<exists>a v. py_int (row ! 0) = Inr a \<and> py_int (row ! 6) = Inr v)"
      by (auto simp: row_ids_long [OF True])
    ultimately show ?thesis using assms(2) by auto
  next
    case (Inr p)
    obtain a v where p: "p = (a, v)" by (cases p)
    from Inr p have ids: "py_int (row ! 0) = Inr a" "py_int (row ! 6) = Inr v"
      by (auto simp: row_ids_long [OF True] py_bind_eq_Inr)
    from True assms(1) Inr p obtain s1 where
      s1: "assign_id a s = Some s1" and s2: "assign_id v s1 = Some s'"
      by (auto simp: first_pass_row_def split: Option.bind_splits)
    from assign_id_inv [OF s1 assms(2)] have i1: "id_inv s1" "dom (fst s1) = insert a (dom (fst s))"
      by simp_all
    from assign_id_inv [OF s2 i1(1)] have i2: "id_inv s'" "dom (fst s') = insert v (dom (fst s1))"
      by simp_all
    from i1 i2 ids show ?thesis by auto
  qed
qed

lemma first_pass_inv:
  "first_pass s rows = Some s' \<Longrightarrow> id_inv s \<Longrightarrow>
     id_inv s' \<and> dom (fst s) \<subseteq> dom (fst s')
     \<and> (\<forall>row \<in> set rows. 7 \<le> length row \<longrightarrow>
           (\<forall>a v. py_int (row ! 0) = Inr a \<and> py_int (row ! 6) = Inr v
              \<longrightarrow> a \<in> dom (fst s') \<and> v \<in> dom (fst s')))"
proof (induction rows arbitrary: s)
  case Nil
  then show ?case by simp
next
  case (Cons row rows)
  from Cons.prems(1) obtain s1 where
    s1: "first_pass_row s row = Some s1" and rest: "first_pass s1 rows = Some s'"
    by (auto split: Option.bind_splits)
  note a = first_pass_row_inv [OF s1 Cons.prems(2)]
  from a have inv1: "id_inv s1" by simp
  note b = Cons.IH [OF rest inv1]
  from a b show ?case by (auto simp: subset_iff)
qed

lemma example_id_map:
  "build_id_map example_rows [18446744073709551615, 6, 6, 41] = Some (example_map, {7, 42}, [])"
proof -
  have g1: "fresh_id {} [18446744073709551615, 6, 6, 41] = Some (7, [6, 41])"
    by (simp add: fresh_id.simps generate_64bit_id_def randint_def)
  have g2: "fresh_id {7} [6, 41] = Some (42, [])"
    by (simp add: fresh_id.simps generate_64bit_id_def randint_def)
  have r1: "first_pass_row (Map.empty, {}, [18446744073709551615, 6, 6, 41])
      [''1'', ''Alpha'', ''Genus1'', ''sp1'', ''AuthorA'', ''FALSCH'', ''1'', ''Alpha'', ''SecA'']
      = Some ([1 \<mapsto> 7], {7}, [6, 41])"
    by (simp add: first_pass_row_def row_ids_long py_int_1 assign_id_def g1)
  have r2: "first_pass_row ([1 \<mapsto> 7], {7}, [6, 41])
      [''2'', ''Beta'', ''Genus1'', ''sp2'', ''AuthorB'', ''WAHR'', ''1'', ''Alpha'', ''SecB'']
      = Some ([1 \<mapsto> 7, 2 \<mapsto> 42], {42, 7}, [])"
    by (simp add: first_pass_row_def row_ids_long py_int_1 py_int_2 assign_id_def g2)
  have "{42, 7} = {7, 42 :: int}" by auto
  then show ?thesis
    by (simp add: build_id_map_def example_rows_def example_map_def r1 r2)
qed

text \<open>
  C1. The mapping the first pass builds is injective, every new identifier it holds is in
  the closed range from 1 to 2^64 - 10^10 - 1, and the new identifiers are exactly the
  members of the set of used identifiers.
\<close>

theorem id_map_injective_in_range:
  assumes "build_id_map rows g = Some (old_to_new_id, used_ids, g')"
  shows "(\<forall>k k' v. old_to_new_id k = Some v \<and> old_to_new_id k' = Some v \<longrightarrow> k = k')
       \<and> (\<forall>k v. old_to_new_id k = Some v \<longrightarrow> 1 \<le> v \<and> v \<le> 2 ^ 64 - 10 ^ 10 - 1)
       \<and> ran old_to_new_id = used_ids"
proof -
  from assms have fp: "first_pass (Map.empty, {}, g) rows = Some (old_to_new_id, used_ids, g')"
    by (simp add: build_id_map_def)
  from first_pass_inv [OF fp id_inv_empty] have "id_inv (old_to_new_id, used_ids, g')"
    by simp
  then have ran: "ran old_to_new_id = used_ids"
    and inj: "inj_on old_to_new_id (dom old_to_new_id)"
    and rng: "\<forall>v \<in> used_ids. 1 \<le> v \<and> v \<le> 2 ^ 64 - 10 ^ 10 - 1"
    by (simp_all add: id_inv_def)
  have "k = k'" if "old_to_new_id k = Some v" "old_to_new_id k' = Some v" for k k' v
    using inj that by (auto simp: inj_on_def dom_def)
  moreover have "1 \<le> v \<and> v \<le> 2 ^ 64 - 10 ^ 10 - 1" if "old_to_new_id k = Some v" for k v
    using ran rng that by (auto simp: ran_def)
  ultimately show ?thesis using ran by blast
qed

theorem id_map_injective_in_range_witness:
  "build_id_map example_rows [18446744073709551615, 6, 6, 41] = Some (example_map, {7, 42}, [])
   \<and> example_map 2 = Some 42 \<and> (1::int) \<le> 42 \<and> (42::int) \<le> 2 ^ 64 - 10 ^ 10 - 1
   \<and> ran example_map = {7, 42}"
proof -
  have two: "example_map 2 = Some 42" by (simp add: example_map_def)
  from id_map_injective_in_range [OF example_id_map] two
  have "(1::int) \<le> 42 \<and> (42::int) \<le> 2 ^ 64 - 10 ^ 10 - 1" and "ran example_map = {7, 42}"
    by blast+
  with example_id_map two show ?thesis by blast
qed

lemma transform_rows_returns:
  "(\<forall>row \<in> set rows. \<forall>e. transform_row d row \<noteq> Raised e) \<Longrightarrow> \<exists>rs. transform_rows d rows = Inr rs"
proof (induction rows)
  case Nil
  then show ?case by simp
next
  case (Cons row rows)
  then obtain rs where "transform_rows d rows = Inr rs" by auto
  with Cons.prems show ?case
    by (cases "transform_row d row") auto
qed

lemma example_dropped_id_map:
  "build_id_map
     [[''1'', ''Alpha'', ''Genus1'', ''sp1'', ''AuthorA'', ''FALSCH'', ''1'', ''Alpha''],
      [[CHR ''5'', CHR 0x1C], ''N'', ''G'', ''s'', ''A'', ''WAHR'', ''5'', ''N'']] [6]
     = Some ([1 \<mapsto> 7], {7}, [])"
proof -
  have g: "fresh_id {} [6] = Some (7, [])"
    by (simp add: fresh_id_Cons)
  have r1: "first_pass_row (Map.empty, {}, [6])
      [''1'', ''Alpha'', ''Genus1'', ''sp1'', ''AuthorA'', ''FALSCH'', ''1'', ''Alpha'']
      = Some ([1 \<mapsto> 7], {7}, [])"
    by (simp add: first_pass_row_def row_ids_long py_int_1 assign_id_def g)
  have r2: "first_pass_row ([1 \<mapsto> 7], {7}, [])
      [[CHR ''5'', CHR 0x1C], ''N'', ''G'', ''s'', ''A'', ''WAHR'', ''5'', ''N'']
      = Some ([1 \<mapsto> 7], {7}, [])"
    by (simp add: first_pass_row_def row_ids_long py_int_separator)
  show ?thesis
    by (simp add: build_id_map_def r1 r2)
qed


text \<open>
  C4. After the first pass over a list of rows, both identifiers of every row of the list
  that has at least 8 fields and whose fields 0 and 6 parse are keys of the mapping. So no
  lookup of the second pass over the same rows raises KeyError and the second pass returns
  its rows; a row is skipped with a warning only when field 0 or field 6 fails to parse
  (ValueError).
\<close>

theorem lookups_never_fail:
  assumes "build_id_map rows g = Some (old_to_new_id, used_ids, g')"
  shows "(\<forall>row \<in> set rows. \<forall>a v.
            8 \<le> length row \<and> py_int (row ! 0) = Inr a \<and> py_int (row ! 6) = Inr v \<longrightarrow>
              a \<in> dom old_to_new_id \<and> v \<in> dom old_to_new_id
              \<and> lookup old_to_new_id a \<noteq> Inl KeyError \<and> lookup old_to_new_id v \<noteq> Inl KeyError
              \<and> (\<exists>r. transform_row old_to_new_id row = Emitted r))
       \<and> (\<forall>row \<in> set rows. \<forall>e. transform_row old_to_new_id row \<noteq> Raised e)
       \<and> (\<forall>row e. transform_row old_to_new_id row = Skipped e \<longrightarrow>
            e = ValueError
            \<and> (py_int (row ! 0) = Inl ValueError \<or> py_int (row ! 6) = Inl ValueError))
       \<and> (\<exists>rs. transform_rows old_to_new_id rows = Inr rs)"
proof -
  from assms have fp: "first_pass (Map.empty, {}, g) rows = Some (old_to_new_id, used_ids, g')"
    by (simp add: build_id_map_def)
  from first_pass_inv [OF fp id_inv_empty]
  have keys: "\<forall>row \<in> set rows. 7 \<le> length row \<longrightarrow>
      (\<forall>a v. py_int (row ! 0) = Inr a \<and> py_int (row ! 6) = Inr v
         \<longrightarrow> a \<in> dom old_to_new_id \<and> v \<in> dom old_to_new_id)"
    by simp
  have present: "a \<in> dom old_to_new_id \<and> v \<in> dom old_to_new_id"
    if "row \<in> set rows" "8 \<le> length row" "py_int (row ! 0) = Inr a" "py_int (row ! 6) = Inr v"
    for row a v
  proof -
    from that(2) have "7 \<le> length row" by simp
    with keys that show ?thesis by blast
  qed
  have first: "a \<in> dom old_to_new_id \<and> v \<in> dom old_to_new_id
      \<and> lookup old_to_new_id a \<noteq> Inl KeyError \<and> lookup old_to_new_id v \<noteq> Inl KeyError
      \<and> (\<exists>r. transform_row old_to_new_id row = Emitted r)"
    if "row \<in> set rows" "8 \<le> length row" "py_int (row ! 0) = Inr a" "py_int (row ! 6) = Inr v"
    for row a v
    using present [OF that] that(2-4) by (auto simp: transform_row_Emitted lookup_Inl)
  have second: "transform_row old_to_new_id row \<noteq> Raised e" if "row \<in> set rows" for row e
    using present [OF that] by (auto simp: transform_row_Raised)
  have third: "e = ValueError
      \<and> (py_int (row ! 0) = Inl ValueError \<or> py_int (row ! 6) = Inl ValueError)"
    if "transform_row old_to_new_id row = Skipped e" for row e
    using that by (auto simp: transform_row_Skipped)
  from second have "\<exists>rs. transform_rows old_to_new_id rows = Inr rs"
    by (intro transform_rows_returns) blast
  with first second third show ?thesis by blast
qed

theorem lookups_never_fail_witness:
  "build_id_map example_rows [18446744073709551615, 6, 6, 41] = Some (example_map, {7, 42}, [])
   \<and> (\<exists>rs. transform_rows example_map example_rows = Inr rs)
   \<and> build_id_map
        [[''1'', ''Alpha'', ''Genus1'', ''sp1'', ''AuthorA'', ''FALSCH'', ''1'', ''Alpha''],
         [[CHR ''5'', CHR 0x1C], ''N'', ''G'', ''s'', ''A'', ''WAHR'', ''5'', ''N'']] [6]
       = Some ([1 \<mapsto> 7], {7}, [])
   \<and> transform_row [1 \<mapsto> 7]
        [[CHR ''5'', CHR 0x1C], ''N'', ''G'', ''s'', ''A'', ''WAHR'', ''5'', ''N'']
       = Skipped ValueError
   \<and> py_int ([[CHR ''5'', CHR 0x1C], ''N'', ''G'', ''s'', ''A'', ''WAHR'', ''5'', ''N''] ! 0)
       = Inl ValueError
   \<and> (\<exists>rs. transform_rows [1 \<mapsto> 7]
          [[''1'', ''Alpha'', ''Genus1'', ''sp1'', ''AuthorA'', ''FALSCH'', ''1'', ''Alpha''],
           [[CHR ''5'', CHR 0x1C], ''N'', ''G'', ''s'', ''A'', ''WAHR'', ''5'', ''N'']] = Inr rs)"
proof -
  note a = lookups_never_fail [OF example_id_map]
  note b = lookups_never_fail [OF example_dropped_id_map]
  have s: "transform_row [1 \<mapsto> 7]
        [[CHR ''5'', CHR 0x1C], ''N'', ''G'', ''s'', ''A'', ''WAHR'', ''5'', ''N'']
       = Skipped ValueError"
    by (simp add: transform_row_Skipped py_int_separator)
  from b s have "py_int ([[CHR ''5'', CHR 0x1C], ''N'', ''G'', ''s'', ''A'', ''WAHR'', ''5'', ''N''] ! 0)
        = Inl ValueError
      \<or> py_int ([[CHR ''5'', CHR 0x1C], ''N'', ''G'', ''s'', ''A'', ''WAHR'', ''5'', ''N''] ! 6)
        = Inl ValueError"
    by blast
  then have f: "py_int ([[CHR ''5'', CHR 0x1C], ''N'', ''G'', ''s'', ''A'', ''WAHR'', ''5'', ''N''] ! 0)
        = Inl ValueError"
    by (simp add: py_int_5)
  from a have "\<exists>rs. transform_rows example_map example_rows = Inr rs" by blast
  moreover from b have "\<exists>rs. transform_rows [1 \<mapsto> 7]
          [[''1'', ''Alpha'', ''Genus1'', ''sp1'', ''AuthorA'', ''FALSCH'', ''1'', ''Alpha''],
           [[CHR ''5'', CHR 0x1C], ''N'', ''G'', ''s'', ''A'', ''WAHR'', ''5'', ''N'']] = Inr rs"
    by blast
  ultimately show ?thesis
    using example_id_map example_dropped_id_map s f by (intro conjI)
qed

text \<open>
  The guard of the first pass: a row with fewer than 7 fields leaves mapping, used
  identifiers and random source as they are. A row with at least 7 fields takes its valid
  identifier from field 6, and leaves everything as it is when field 0 or field 6 does not
  parse.
\<close>

lemma short_rows_contribute_nothing:
  "(length row < 7 \<longrightarrow> first_pass_row s row = Some s)
   \<and> (7 \<le> length row \<longrightarrow>
        row_ids row = py_bind (py_int (row ! 0)) (\<lambda>a. py_bind (py_int (row ! 6)) (\<lambda>v. Inr (a, v))))
   \<and> (7 \<le> length row \<and> (py_int (row ! 0) = Inl e \<or> py_int (row ! 6) = Inl e)
        \<longrightarrow> first_pass_row s row = Some s)"
proof -
  have a: "first_pass_row s row = Some s" if "length row < 7"
    using that by (simp add: first_pass_row_def)
  have b: "first_pass_row s row = Some s"
    if "7 \<le> length row" "py_int (row ! 0) = Inl e \<or> py_int (row ! 6) = Inl e"
  proof -
    from that have "\<exists>e'. row_ids row = Inl e'"
      by (cases "py_int (row ! 0)") (auto simp: row_ids_long)
    with that(1) show ?thesis by (auto simp: first_pass_row_def)
  qed
  from a b row_ids_long show ?thesis by blast
qed

section \<open>The parser\<close>



lemma parse_line_keeps_header: "header_found st \<Longrightarrow> header_found (parse_line st raw)"
  by (simp add: parse_line_def Let_def)

lemma parse_lines_keep_header: "header_found st \<Longrightarrow> header_found (foldl parse_line st ls)"
  by (induction ls arbitrary: st) (simp_all add: parse_line_keeps_header)

text \<open>
  C8, as the code has it. Before the header is found, a line that is not blank is taken as
  the header exactly when it contains a semicolon and the three substrings SPECIES\_NR,
  NAME and GENUS; the header line is stored nowhere. A line with a semicolon that is not
  taken as the header is appended to the metadata; a line without a semicolon changes
  nothing. Once the header is found it stays found, whatever lines follow.
\<close>

theorem before_header_step:
  "(\<not> header_found st \<and> strip raw \<noteq> [] \<longrightarrow>
      (header_found (parse_line st raw)
         \<longleftrightarrow> CHR '';'' \<in> set (strip raw) \<and> looks_like_header (strip raw))
    \<and> (CHR '';'' \<in> set (strip raw) \<and> looks_like_header (strip raw)
         \<longrightarrow> parse_line st raw = st\<lparr>header_found := True\<rparr>)
    \<and> (CHR '';'' \<in> set (strip raw) \<and> \<not> looks_like_header (strip raw)
         \<longrightarrow> parse_line st raw = st\<lparr>metadata_lines := metadata_lines st @ [strip raw]\<rparr>)
    \<and> (CHR '';'' \<notin> set (strip raw) \<longrightarrow> parse_line st raw = st))
   \<and> (header_found st \<longrightarrow> header_found (foldl parse_line st ls))"
  using parse_lines_keep_header [of st ls]
  by (auto simp: parse_line_def Let_def)

lemma dropWhile_stays: "xs \<noteq> [] \<Longrightarrow> \<not> P (hd xs) \<Longrightarrow> dropWhile P xs = xs"
  by (cases xs) auto

lemma strip_plain: "s \<noteq> [] \<Longrightarrow> \<not> is_space (hd s) \<Longrightarrow> \<not> is_space (last s) \<Longrightarrow> strip s = s"
  by (simp add: strip_def dropWhile_stays hd_rev)

lemma strip_old_header:
  "strip ''SPECIES_NR;NAME;GENUS;SPECIES;AUTHOR;SYNONYM;VALID_NR;VALID_NAME;SECUNDUM''
     = ''SPECIES_NR;NAME;GENUS;SPECIES;AUTHOR;SYNONYM;VALID_NR;VALID_NAME;SECUNDUM''"
  by (rule strip_plain) (simp_all add: is_space_def)

theorem before_header_step_witness:
  "parse_line initial_state
      ''SPECIES_NR;NAME;GENUS;SPECIES;AUTHOR;SYNONYM;VALID_NR;VALID_NAME;SECUNDUM''
     = initial_state\<lparr>header_found := True\<rparr>
   \<and> header_found (foldl parse_line (initial_state\<lparr>header_found := True\<rparr>) [''a;b'', ''SPECIES_NR''])"
proof -
  have a: "\<not> header_found initial_state
      \<and> strip ''SPECIES_NR;NAME;GENUS;SPECIES;AUTHOR;SYNONYM;VALID_NR;VALID_NAME;SECUNDUM'' \<noteq> []"
    by (simp add: initial_state_def strip_old_header)
  have b: "CHR '';'' \<in> set (strip ''SPECIES_NR;NAME;GENUS;SPECIES;AUTHOR;SYNONYM;VALID_NR;VALID_NAME;SECUNDUM'')
      \<and> looks_like_header (strip ''SPECIES_NR;NAME;GENUS;SPECIES;AUTHOR;SYNONYM;VALID_NR;VALID_NAME;SECUNDUM'')"
    by (simp add: strip_old_header looks_like_header_def)
  have c: "header_found (initial_state\<lparr>header_found := True\<rparr>)" by simp
  from before_header_step [of initial_state
      "''SPECIES_NR;NAME;GENUS;SPECIES;AUTHOR;SYNONYM;VALID_NR;VALID_NAME;SECUNDUM''"] a b
  have one: "parse_line initial_state
      ''SPECIES_NR;NAME;GENUS;SPECIES;AUTHOR;SYNONYM;VALID_NR;VALID_NAME;SECUNDUM''
     = initial_state\<lparr>header_found := True\<rparr>"
    by blast
  from before_header_step [of "initial_state\<lparr>header_found := True\<rparr>" _ "[''a;b'', ''SPECIES_NR'']"] c
  have two: "header_found (foldl parse_line (initial_state\<lparr>header_found := True\<rparr>) [''a;b'', ''SPECIES_NR''])"
    by blast
  from one two show ?thesis by blast
qed

text \<open>
  C8 as the specification words it fails on a line that holds the three substrings
  and no semicolon: it is not taken as the header, the parser stays before the header.
\<close>

theorem header_without_semicolon_counterexample:
  "\<not> header_found initial_state
   \<and> strip ''SPECIES_NR,NAME,GENUS'' \<noteq> []
   \<and> contains ''SPECIES_NR'' ''SPECIES_NR,NAME,GENUS''
   \<and> contains ''NAME'' ''SPECIES_NR,NAME,GENUS''
   \<and> contains ''GENUS'' ''SPECIES_NR,NAME,GENUS''
   \<and> parse_line initial_state ''SPECIES_NR,NAME,GENUS'' = initial_state
   \<and> \<not> header_found (parse_line initial_state ''SPECIES_NR,NAME,GENUS'')"
proof -
  have s: "strip ''SPECIES_NR,NAME,GENUS'' = ''SPECIES_NR,NAME,GENUS''"
    by (rule strip_plain) (simp_all add: is_space_def)
  show ?thesis
    by (simp add: s parse_line_def initial_state_def)
qed

section \<open>Substrings and replacement\<close>

lemma startswith_iff: "startswith p s \<longleftrightarrow> (\<exists>t. s = p @ t)"
  by (induction p s rule: startswith.induct) auto

lemma contains_iff: "contains sub s \<longleftrightarrow> (\<exists>a b. s = a @ sub @ b)"
proof (induction s)
  case Nil
  then show ?case by (auto simp: startswith_iff)
next
  case (Cons c cs)
  show ?case
  proof
    assume "contains sub (c # cs)"
    then consider "startswith sub (c # cs)" | "contains sub cs" by auto
    then show "\<exists>a b. c # cs = a @ sub @ b"
    proof cases
      case 1
      then obtain t where "c # cs = sub @ t" by (auto simp: startswith_iff)
      then have "c # cs = [] @ sub @ t" by simp
      then show ?thesis by blast
    next
      case 2
      with Cons.IH obtain a b where "cs = a @ sub @ b" by blast
      then have "c # cs = (c # a) @ sub @ b" by simp
      then show ?thesis by blast
    qed
  next
    assume "\<exists>a b. c # cs = a @ sub @ b"
    then obtain a b where ab: "c # cs = a @ sub @ b" by blast
    show "contains sub (c # cs)"
    proof (cases a)
      case Nil
      with ab have "startswith sub (c # cs)" by (simp add: startswith_iff)
      then show ?thesis by simp
    next
      case (Cons x xs)
      with ab have "cs = xs @ sub @ b" by simp
      with Cons.IH show ?thesis by auto
    qed
  qed
qed

lemma replace_Nil [simp]: "old \<noteq> [] \<Longrightarrow> replace old new [] = []"
  by (simp add: replace.simps)

lemma replace_match: "old \<noteq> [] \<Longrightarrow> replace old new (old @ s) = new @ replace old new s"
  by (subst replace.simps) (simp add: startswith_iff)

lemma replace_step:
  "old \<noteq> [] \<Longrightarrow> \<not> startswith old (c # s) \<Longrightarrow> replace old new (c # s) = c # replace old new s"
  by (subst replace.simps) simp

lemma replace_no_occurrence: "old \<noteq> [] \<Longrightarrow> \<not> contains old s \<Longrightarrow> replace old new s = s"
  by (induction s) (auto simp: replace_step)

lemma replace_first:
  "old \<noteq> [] \<Longrightarrow> \<not> contains old (a @ butlast old) \<Longrightarrow>
     replace old new (a @ old @ b) = a @ new @ replace old new b"
proof (induction a)
  case Nil
  then show ?case by (simp add: replace_match)
next
  case (Cons c a)
  have "\<not> startswith old (c # a @ old @ b)"
  proof
    assume "startswith old (c # a @ old @ b)"
    then obtain t where t0: "(c # a) @ old @ b = old @ t"
      by (auto simp: startswith_iff)
    have "old = butlast old @ [last old]"
      using Cons.prems(1) by simp
    then have "(c # a) @ old @ b = (c # a) @ butlast old @ [last old] @ b"
      by (metis append.assoc)
    with t0 have t: "(c # a) @ butlast old @ [last old] @ b = old @ t"
      by simp
    have "length old \<le> length ((c # a) @ butlast old)"
      using Cons.prems(1) by (cases old) auto
    with t have "\<exists>u. (c # a) @ butlast old = old @ u"
      by (metis append.assoc append_eq_append_conv_if append_take_drop_id)
    then have "contains old ((c # a) @ butlast old)"
      unfolding contains_iff by (metis append_Nil)
    with Cons.prems(2) show False by simp
  qed
  moreover from Cons.prems(2) have "\<not> contains old (a @ butlast old)"
    by auto
  ultimately show ?case
    using Cons.IH Cons.prems(1) by (simp add: replace_step)
qed

lemma startswith_before_char:
  "c \<notin> set old \<Longrightarrow> startswith old (l @ c # rest) \<longleftrightarrow> startswith old l"
proof (induction old l rule: startswith.induct)
  case (1 s)
  then show ?case by simp
next
  case (2 p ps)
  then show ?case by auto
next
  case (3 p ps x xs)
  then show ?case by simp
qed

lemma replace_line:
  "old \<noteq> [] \<Longrightarrow> c \<notin> set old \<Longrightarrow>
     replace old new (l @ c # rest) = replace old new l @ c # replace old new rest"
proof (induction "length l" arbitrary: l rule: less_induct)
  case less
  show ?case
  proof (cases l)
    case Nil
    have "\<not> startswith old (c # rest)"
      using less.prems by (cases old) auto
    with Nil less.prems show ?thesis by (simp add: replace_step)
  next
    case (Cons x xs)
    show ?thesis
    proof (cases "startswith old l")
      case True
      then obtain t where t: "l = old @ t" by (auto simp: startswith_iff)
      with less.prems(1) have "length t < length l" by simp
      from less.hyps [OF this less.prems] t less.prems(1) show ?thesis
        by (simp add: replace_match)
    next
      case False
      with less.prems(2) have "\<not> startswith old (l @ c # rest)"
        by (simp add: startswith_before_char)
      with False Cons less.prems less.hyps [of xs] show ?thesis
        by (simp add: replace_step)
    qed
  qed
qed

lemma replace_write_lines:
  "old \<noteq> [] \<Longrightarrow> CHR 0x0A \<notin> set old \<Longrightarrow>
     replace old new (write_lines ls) = write_lines (map (replace old new) ls)"
  by (induction ls) (simp_all add: write_lines_def replace_line)

lemma normalize_booleans_write_lines:
  "normalize_booleans (write_lines ls) = write_lines (map normalize_booleans ls)"
proof -
  have eq: "normalize_booleans = (\<lambda>x. replace '';FALSCH;'' '';FALSE;'' (replace '';WAHR;'' '';TRUE;'' x))"
    by (rule ext) (simp add: normalize_booleans_def)
  show ?thesis
    unfolding eq by (simp add: replace_write_lines comp_def)
qed

lemma set_replace: "old \<noteq> [] \<Longrightarrow> set (replace old new s) \<subseteq> set s \<union> set new"
proof (induction "length s" arbitrary: s rule: less_induct)
  case less
  show ?case
  proof (cases s)
    case Nil
    with less.prems show ?thesis by simp
  next
    case (Cons x xs)
    show ?thesis
    proof (cases "startswith old s")
      case True
      then obtain t where t: "s = old @ t" by (auto simp: startswith_iff)
      with less.prems have "length t < length s" by simp
      from less.hyps [OF this less.prems] t less.prems show ?thesis
        by (auto simp: replace_match)
    next
      case False
      with Cons less.prems less.hyps [of xs] show ?thesis
        by (auto simp: replace_step)
    qed
  qed
qed

section \<open>Carriage returns never reach the output\<close>

lemma universal_newlines_id: "CHR 0x0D \<notin> set s \<Longrightarrow> universal_newlines s = s"
  by (induction s rule: universal_newlines.induct) auto

lemma universal_newlines_no_cr: "CHR 0x0D \<notin> set (universal_newlines s)"
  by (induction s rule: universal_newlines.induct) auto

lemma concat_file_lines: "concat (file_lines s) = s"
  by (induction s) (auto split: list.splits)

lemma set_file_line: "l \<in> set (file_lines s) \<Longrightarrow> set l \<subseteq> set s"
proof -
  assume "l \<in> set (file_lines s)"
  then have "set l \<subseteq> set (concat (file_lines s))" by auto
  then show ?thesis by (simp add: concat_file_lines)
qed

lemma set_strip: "set (strip s) \<subseteq> set s"
  by (auto simp: strip_def dest!: set_dropWhileD)

lemma set_split_on: "p \<in> set (split_on sep s) \<Longrightarrow> set p \<subseteq> set s"
proof (induction s arbitrary: p)
  case Nil
  then show ?case by simp
next
  case (Cons c cs)
  show ?case
  proof (cases "c = sep")
    case True
    with Cons show ?thesis by auto
  next
    case False
    show ?thesis
    proof (cases "split_on sep cs")
      case Nil
      with False Cons.prems show ?thesis by auto
    next
      case (Cons q qs)
      with Cons.IH have "set q \<subseteq> set cs" and "\<forall>x \<in> set qs. set x \<subseteq> set cs"
        by simp_all
      with False Cons Cons.prems show ?thesis by auto
    qed
  qed
qed

lemma digit_table: "n < 10 \<Longrightarrow> ''0123456789'' ! n \<in> set ''0123456789''"
  by (rule nth_mem) simp

lemma set_digits_of: "set (digits_of n) \<subseteq> set ''0123456789''"
proof (induction n rule: digits_of.induct)
  case (1 n)
  show ?case
  proof (cases "n < 10")
    case True
    with digit_table [OF True] show ?thesis
      by (subst digits_of.simps) simp
  next
    case False
    have "n mod 10 < 10" by simp
    from digit_table [OF this] "1.IH" [OF False] False show ?thesis
      by (subst digits_of.simps) simp
  qed
qed

lemma py_str_no_cr: "CHR 0x0D \<notin> set (py_str i)"
  using set_digits_of [of "nat i"] set_digits_of [of "nat (- i)"]
  by (auto simp: py_str_def)

lemma set_tl_dropWhile: "set (tl (dropWhile P xs)) \<subseteq> set xs"
proof -
  have "set (tl ys) \<subseteq> set ys" for ys :: "'a list"
    by (cases ys) auto
  then have "set (tl (dropWhile P xs)) \<subseteq> set (dropWhile P xs)" .
  also have "\<dots> \<subseteq> set xs"
    by (rule subsetI) (erule set_dropWhileD)
  finally show ?thesis .
qed

lemma update_metadata_line_cases:
  "update_metadata_line line =
     (if startswith ''SPECIES_LU_VERSION'' line then
        (if CHR '';'' \<in> set line
         then ''SPECIES_LU;'' @ tl (dropWhile (\<lambda>c. c \<noteq> CHR '';'') line)
         else replace ''SPECIES_LU_VERSION'' ''SPECIES_LU'' line)
      else line)"
  by (simp add: update_metadata_line_def split_first_def)

lemma update_metadata_line_no_cr:
  assumes "CHR 0x0D \<notin> set line"
  shows "CHR 0x0D \<notin> set (update_metadata_line line)"
proof -
  have a: "CHR 0x0D \<notin> set (tl (dropWhile (\<lambda>c. c \<noteq> CHR '';'') line))"
    using assms set_tl_dropWhile [of "\<lambda>c. c \<noteq> CHR '';''" line] by blast
  have "set (replace ''SPECIES_LU_VERSION'' ''SPECIES_LU'' line)
      \<subseteq> set line \<union> set ''SPECIES_LU''"
    by (rule set_replace) simp
  with assms have b: "CHR 0x0D \<notin> set (replace ''SPECIES_LU_VERSION'' ''SPECIES_LU'' line)"
    by auto
  show ?thesis
    unfolding update_metadata_line_cases using assms a b by simp
qed

lemma set_join: "set (join sep ps) \<subseteq> insert sep (\<Union> (set ` set ps))"
  by (induction sep ps rule: join.induct) auto

lemma write_lines_no_cr:
  "(\<forall>l \<in> set ls. CHR 0x0D \<notin> set l) \<Longrightarrow> CHR 0x0D \<notin> set (write_lines ls)"
  by (auto simp: write_lines_def)

lemma parse_line_no_cr:
  assumes "no_cr st" and "CHR 0x0D \<notin> set raw"
  shows "no_cr (parse_line st raw)"
proof -
  from assms(2) set_strip [of raw] have line: "CHR 0x0D \<notin> set (strip raw)" by auto
  then have "\<forall>f \<in> set (split_on CHR '';'' (strip raw)). CHR 0x0D \<notin> set f"
    using set_split_on by fastforce
  with line assms(1) show ?thesis
    by (auto simp: parse_line_def no_cr_def Let_def)
qed

lemma parse_lines_no_cr:
  "no_cr st \<Longrightarrow> (\<forall>l \<in> set ls. CHR 0x0D \<notin> set l) \<Longrightarrow> no_cr (foldl parse_line st ls)"
  by (induction ls arbitrary: st) (simp_all add: parse_line_no_cr)

lemma parse_csv_file_no_cr:
  assumes "parse_csv_file text = (metadata, rows)"
  shows "(\<forall>l \<in> set metadata. CHR 0x0D \<notin> set l)
       \<and> (\<forall>row \<in> set rows. \<forall>f \<in> set row. CHR 0x0D \<notin> set f)"
proof -
  have "\<forall>l \<in> set (file_lines (universal_newlines text)). CHR 0x0D \<notin> set l"
    using set_file_line universal_newlines_no_cr by blast
  moreover have "no_cr initial_state"
    by (simp add: no_cr_def initial_state_def)
  ultimately have "no_cr (foldl parse_line initial_state (file_lines (universal_newlines text)))"
    by (intro parse_lines_no_cr)
  with assms show ?thesis
    by (auto simp: parse_csv_file_def Let_def no_cr_def)
qed

lemma emitted_no_cr:
  assumes "transform_row d row = Emitted r" and "\<forall>f \<in> set row. CHR 0x0D \<notin> set f"
  shows "\<forall>f \<in> set r. CHR 0x0D \<notin> set f"
proof -
  from assms(1) obtain na nv where len: "8 \<le> length row"
    and r: "r = [py_str na, row ! 1, row ! 2, row ! 3, row ! 5, py_str nv, row ! 7, [], []]"
    unfolding transform_row_Emitted by blast
  from len have "row ! 1 \<in> set row" "row ! 2 \<in> set row" "row ! 3 \<in> set row"
    "row ! 5 \<in> set row" "row ! 7 \<in> set row"
    by (simp_all add: nth_mem)
  with assms(2) r show ?thesis
    by (simp add: py_str_no_cr)
qed

lemma serialize_no_cr:
  assumes "\<forall>l \<in> set new_metadata. CHR 0x0D \<notin> set l"
    and "\<forall>r \<in> set rs. \<forall>f \<in> set r. CHR 0x0D \<notin> set f"
  shows "CHR 0x0D \<notin> set (serialize new_metadata rs)"
proof -
  have "\<forall>l \<in> set (map (join CHR '';'') rs). CHR 0x0D \<notin> set l"
    using assms(2) set_join [of "CHR '';''"] by fastforce
  moreover have "CHR 0x0D \<notin> set new_header"
    by (simp add: new_header_def)
  ultimately show ?thesis
    using assms(1) by (simp add: serialize_def write_lines_no_cr)
qed

section \<open>The text that is written\<close>

lemma serialize_lines:
  "serialize new_metadata rs
     = write_lines (new_metadata @ [new_header] @ map (join CHR '';'') rs)"
  by (simp add: serialize_def write_lines_def)

lemma transform_output:
  assumes "parse_csv_file text = (metadata, rows)"
    and "build_id_map rows g = Some (m, u, g')"
    and "transform_rows m rows = Inr rs"
  shows "transform_species_csv text g
     = Some (Inr (normalize_booleans (serialize (map update_metadata_line metadata) rs)))"
proof -
  note clean = parse_csv_file_no_cr [OF assms(1)]
  have md: "\<forall>l \<in> set (map update_metadata_line metadata). CHR 0x0D \<notin> set l"
    using clean by (simp add: update_metadata_line_no_cr)
  have "\<forall>f \<in> set r. CHR 0x0D \<notin> set f" if "r \<in> set rs" for r
  proof -
    from transform_rows_Inr [OF assms(3) that] obtain row where
      "row \<in> set rows" "transform_row m row = Emitted r"
      by blast
    with clean emitted_no_cr show ?thesis by blast
  qed
  with md have "CHR 0x0D \<notin> set (serialize (map update_metadata_line metadata) rs)"
    by (intro serialize_no_cr) blast+
  then have "universal_newlines (serialize (map update_metadata_line metadata) rs)
      = serialize (map update_metadata_line metadata) rs"
    by (rule universal_newlines_id)
  with assms show ?thesis
    by (simp add: transform_species_csv_def)
qed

lemma normalize_booleans_unchanged:
  "\<not> contains '';WAHR;'' s \<Longrightarrow> \<not> contains '';FALSCH;'' s \<Longrightarrow> normalize_booleans s = s"
  by (simp add: normalize_booleans_def replace_no_occurrence)

lemma normalize_new_header: "normalize_booleans new_header = new_header"
  by (rule normalize_booleans_unchanged) (simp_all add: new_header_def)

section \<open>Inputs without a header\<close>

lemma strip_infix: "\<exists>a b. s = a @ strip s @ b"
proof -
  have "s = takeWhile is_space s @ dropWhile is_space s" by simp
  moreover have "dropWhile is_space s
      = rev (rev (dropWhile is_space s))"
    by simp
  moreover have "rev (dropWhile is_space s)
      = takeWhile is_space (rev (dropWhile is_space s)) @ dropWhile is_space (rev (dropWhile is_space s))"
    by simp
  ultimately have "s = takeWhile is_space s
      @ strip s @ rev (takeWhile is_space (rev (dropWhile is_space s)))"
    unfolding strip_def by (metis rev_append)
  then show ?thesis by blast
qed

lemma contains_strip: "contains sub (strip s) \<Longrightarrow> contains sub s"
proof -
  assume "contains sub (strip s)"
  then obtain x y where xy: "strip s = x @ sub @ y" by (auto simp: contains_iff)
  from strip_infix obtain a b where "s = a @ strip s @ b" by blast
  with xy have "s = (a @ x) @ sub @ (y @ b)" by simp
  then show ?thesis unfolding contains_iff by blast
qed

lemma looks_like_header_strip: "looks_like_header (strip s) \<Longrightarrow> looks_like_header s"
  by (simp add: looks_like_header_def contains_strip)

lemma parse_lines_no_header:
  "\<not> header_found st \<Longrightarrow> (\<forall>l \<in> set ls. \<not> looks_like_header l) \<Longrightarrow>
     foldl parse_line st ls
       = st\<lparr>metadata_lines := metadata_lines st @ filter (\<lambda>l. CHR '';'' \<in> set l) (map strip ls)\<rparr>"
proof (induction ls arbitrary: st)
  case Nil
  then show ?case by simp
next
  case (Cons raw ls)
  from Cons.prems(2) have nh: "\<not> looks_like_header (strip raw)"
    using looks_like_header_strip by auto
  have step: "parse_line st raw
      = (if CHR '';'' \<in> set (strip raw)
         then st\<lparr>metadata_lines := metadata_lines st @ [strip raw]\<rparr> else st)"
    using Cons.prems(1) nh by (auto simp: parse_line_def Let_def)
  then have "\<not> header_found (parse_line st raw)"
    using Cons.prems(1) by simp
  from Cons.IH [OF this] Cons.prems(2) step show ?case
    by simp
qed

text \<open>
  C10. When no line of the input contains SPECIES\_NR, NAME and GENUS together, the run
  ends without an exception whatever the random source holds (it is not used). Every line
  that has a semicolon is metadata, there are no data rows, and the output is the metadata
  lines (key renamed, boolean tokens substituted) followed by the new header line.
\<close>

theorem no_header_output:
  assumes "\<forall>l \<in> set (file_lines (universal_newlines text)). \<not> looks_like_header l"
  shows "parse_csv_file text
           = (filter (\<lambda>l. CHR '';'' \<in> set l) (map strip (file_lines (universal_newlines text))), [])
       \<and> transform_species_csv text g
           = Some (Inr (write_lines
               (map (\<lambda>l. normalize_booleans (update_metadata_line l))
                  (filter (\<lambda>l. CHR '';'' \<in> set l) (map strip (file_lines (universal_newlines text))))
                @ [new_header])))"
proof -
  let ?md = "filter (\<lambda>l. CHR '';'' \<in> set l) (map strip (file_lines (universal_newlines text)))"
  have "\<not> header_found initial_state" by (simp add: initial_state_def)
  from parse_lines_no_header [OF this assms]
  have p: "parse_csv_file text = (?md, [])"
    by (simp add: parse_csv_file_def initial_state_def)
  have b: "build_id_map [] g = Some (Map.empty, {}, g)"
    by (simp add: build_id_map_def)
  have t: "transform_rows Map.empty [] = Inr []" by simp
  from transform_output [OF p b t] have
    "transform_species_csv text g
       = Some (Inr (normalize_booleans (serialize (map update_metadata_line ?md) [])))" .
  then have "transform_species_csv text g
       = Some (Inr (write_lines (map normalize_booleans (map update_metadata_line ?md @ [new_header]))))"
    by (simp add: serialize_lines normalize_booleans_write_lines)
  then show ?thesis
    using p by (simp add: normalize_new_header comp_def)
qed

lemma example_metadata_only_lines:
  "file_lines (universal_newlines example_metadata_only)
     = [''NOTE;WAHR;x'' @ [CHR 0x0A], ''SPECIES_LU_VERSION;3.2'' @ [CHR 0x0A], ''plain'' @ [CHR 0x0A]]"
  by (simp add: example_metadata_only_def)

lemma example_metadata_only_stripped:
  "map strip (file_lines (universal_newlines example_metadata_only))
     = [''NOTE;WAHR;x'', ''SPECIES_LU_VERSION;3.2'', ''plain'']"
  unfolding example_metadata_only_lines by (simp add: strip_def is_space_def)

lemma normalize_note: "normalize_booleans ''NOTE;WAHR;x'' = ''NOTE;TRUE;x''"
  by (simp add: normalize_booleans_def replace.simps)

lemma normalize_version: "normalize_booleans ''SPECIES_LU;3.2'' = ''SPECIES_LU;3.2''"
  by (rule normalize_booleans_unchanged) simp_all

theorem no_header_output_witness:
  "transform_species_csv example_metadata_only []
     = Some (Inr (''NOTE;TRUE;x'' @ [CHR 0x0A] @ ''SPECIES_LU;3.2'' @ [CHR 0x0A]
                   @ new_header @ [CHR 0x0A]))"
proof -
  have h: "\<forall>l \<in> set (file_lines (universal_newlines example_metadata_only)). \<not> looks_like_header l"
    unfolding example_metadata_only_lines by (simp add: looks_like_header_def)
  from no_header_output [OF h, of "[]"] show ?thesis
    unfolding example_metadata_only_stripped
    by (simp add: update_metadata_line_cases normalize_note normalize_version write_lines_def)
qed

section \<open>Boolean tokens and metadata in the output\<close>

lemma update_metadata_line_key:
  assumes "startswith ''SPECIES_LU_VERSION'' line" and "line = a @ CHR '';'' # b"
    and "CHR '';'' \<notin> set a"
  shows "update_metadata_line line = ''SPECIES_LU;'' @ b"
proof -
  from assms(3) have "dropWhile (\<lambda>c. c \<noteq> CHR '';'') (a @ CHR '';'' # b) = CHR '';'' # b"
    by (subst dropWhile_append2) auto
  with assms(1,2) show ?thesis
    by (simp add: update_metadata_line_cases)
qed

text \<open>
  The substitution of the boolean tokens is applied to the whole serialized text, so to
  every written line alike, metadata, header or data. It is the replacement of
  \<open>str.replace\<close>, first for \<open>;WAHR;\<close>, then for \<open>;FALSCH;\<close>: the leftmost
  occurrence of the token is replaced and the scan goes on behind it; a text without the
  token stays as it is.
\<close>

lemma boolean_normalization_whole_text:
  assumes "parse_csv_file text = (metadata, rows)"
    and "build_id_map rows g = Some (m, u, g')"
    and "transform_rows m rows = Inr rs"
  shows "transform_species_csv text g
           = Some (Inr (normalize_booleans (serialize (map update_metadata_line metadata) rs)))
       \<and> normalize_booleans (serialize (map update_metadata_line metadata) rs)
           = write_lines (map normalize_booleans
               (map update_metadata_line metadata @ [new_header] @ map (join CHR '';'') rs))
       \<and> normalize_booleans s
           = replace '';FALSCH;'' '';FALSE;'' (replace '';WAHR;'' '';TRUE;'' s)
       \<and> (\<not> contains '';WAHR;'' (a @ '';WAHR'') \<longrightarrow>
            replace '';WAHR;'' '';TRUE;'' (a @ '';WAHR;'' @ b)
              = a @ '';TRUE;'' @ replace '';WAHR;'' '';TRUE;'' b)
       \<and> (\<not> contains '';FALSCH;'' (a @ '';FALSCH'') \<longrightarrow>
            replace '';FALSCH;'' '';FALSE;'' (a @ '';FALSCH;'' @ b)
              = a @ '';FALSE;'' @ replace '';FALSCH;'' '';FALSE;'' b)
       \<and> (\<not> contains '';WAHR;'' s \<longrightarrow> replace '';WAHR;'' '';TRUE;'' s = s)
       \<and> (\<not> contains '';FALSCH;'' s \<longrightarrow> replace '';FALSCH;'' '';FALSE;'' s = s)"
proof -
  have w: "replace '';WAHR;'' '';TRUE;'' (a @ '';WAHR;'' @ b)
      = a @ '';TRUE;'' @ replace '';WAHR;'' '';TRUE;'' b"
    if "\<not> contains '';WAHR;'' (a @ '';WAHR'')"
    using replace_first [of "'';WAHR;''" a "'';TRUE;''" b] that by simp
  have f: "replace '';FALSCH;'' '';FALSE;'' (a @ '';FALSCH;'' @ b)
      = a @ '';FALSE;'' @ replace '';FALSCH;'' '';FALSE;'' b"
    if "\<not> contains '';FALSCH;'' (a @ '';FALSCH'')"
    using replace_first [of "'';FALSCH;''" a "'';FALSE;''" b] that by simp
  have nw: "replace '';WAHR;'' '';TRUE;'' s = s" if "\<not> contains '';WAHR;'' s"
    using that by (simp add: replace_no_occurrence)
  have nf: "replace '';FALSCH;'' '';FALSE;'' s = s" if "\<not> contains '';FALSCH;'' s"
    using that by (simp add: replace_no_occurrence)
  have lines: "normalize_booleans (serialize (map update_metadata_line metadata) rs)
      = write_lines (map normalize_booleans
          (map update_metadata_line metadata @ [new_header] @ map (join CHR '';'') rs))"
    by (simp only: serialize_lines normalize_booleans_write_lines)
  have unfold: "normalize_booleans s
      = replace '';FALSCH;'' '';FALSE;'' (replace '';WAHR;'' '';TRUE;'' s)"
    by (simp add: normalize_booleans_def)
  from transform_output [OF assms] lines unfold w f nw nf show ?thesis
    by blast
qed

lemma strip_line: "s \<noteq> [] \<Longrightarrow> \<not> is_space (hd s) \<Longrightarrow> \<not> is_space (last s) \<Longrightarrow> strip (s @ [CHR 0x0A]) = s"
proof -
  assume a: "s \<noteq> []" "\<not> is_space (hd s)" "\<not> is_space (last s)"
  then have "dropWhile is_space (s @ [CHR 0x0A]) = s @ [CHR 0x0A]"
    by (cases s) auto
  moreover have "is_space (CHR 0x0A)" by (simp add: is_space_def)
  moreover from a have "dropWhile is_space (rev s) = rev s"
    by (simp add: dropWhile_stays hd_rev)
  ultimately show ?thesis by (simp add: strip_def)
qed

lemma header_recognised:
  "CHR '';'' \<in> set old_header \<and> looks_like_header old_header \<and> old_header \<noteq> []"
  by (simp add: old_header_def looks_like_header_def)

lemma strip_header_line: "strip (old_header @ [CHR 0x0A]) = old_header"
  by (rule strip_line) (simp_all add: old_header_def is_space_def)

lemma parse_header_line:
  "parse_line initial_state (old_header @ [CHR 0x0A]) = initial_state\<lparr>header_found := True\<rparr>"
  using header_recognised
  by (simp add: parse_line_def strip_header_line initial_state_def)

lemma parse_data_line:
  assumes "header_found st" and "strip raw = line" and "line \<noteq> []"
    and "split_on CHR '';'' line = parts" and "8 \<le> length parts"
  shows "parse_line st raw = st\<lparr>data_rows := data_rows st @ [parts]\<rparr>"
  using assms by (simp add: parse_line_def)

lemma example_text_parsed: "parse_csv_file example_text = ([], example_rows)"
proof -
  have l: "file_lines (universal_newlines example_text)
      = [old_header @ [CHR 0x0A],
         ''1;Alpha;Genus1;sp1;AuthorA;FALSCH;1;Alpha;SecA'' @ [CHR 0x0A],
         ''2;Beta;Genus1;sp2;AuthorB;WAHR;1;Alpha;SecB'' @ [CHR 0x0A]]"
    by (simp add: example_text_def old_header_def)
  have s1: "strip (''1;Alpha;Genus1;sp1;AuthorA;FALSCH;1;Alpha;SecA'' @ [CHR 0x0A])
      = ''1;Alpha;Genus1;sp1;AuthorA;FALSCH;1;Alpha;SecA''"
    by (rule strip_line) (simp_all add: is_space_def)
  have s2: "strip (''2;Beta;Genus1;sp2;AuthorB;WAHR;1;Alpha;SecB'' @ [CHR 0x0A])
      = ''2;Beta;Genus1;sp2;AuthorB;WAHR;1;Alpha;SecB''"
    by (rule strip_line) (simp_all add: is_space_def)
  have p1: "split_on CHR '';'' ''1;Alpha;Genus1;sp1;AuthorA;FALSCH;1;Alpha;SecA''
      = [''1'', ''Alpha'', ''Genus1'', ''sp1'', ''AuthorA'', ''FALSCH'', ''1'', ''Alpha'', ''SecA'']"
    by simp
  have p2: "split_on CHR '';'' ''2;Beta;Genus1;sp2;AuthorB;WAHR;1;Alpha;SecB''
      = [''2'', ''Beta'', ''Genus1'', ''sp2'', ''AuthorB'', ''WAHR'', ''1'', ''Alpha'', ''SecB'']"
    by simp
  have d1: "parse_line (initial_state\<lparr>header_found := True\<rparr>)
        (''1;Alpha;Genus1;sp1;AuthorA;FALSCH;1;Alpha;SecA'' @ [CHR 0x0A])
      = initial_state\<lparr>header_found := True, data_rows := [[''1'', ''Alpha'', ''Genus1'', ''sp1'',
          ''AuthorA'', ''FALSCH'', ''1'', ''Alpha'', ''SecA'']]\<rparr>"
    by (subst parse_data_line [OF _ s1 _ p1]) (simp_all add: initial_state_def)
  have d2: "parse_line (initial_state\<lparr>header_found := True, data_rows := [[''1'', ''Alpha'', ''Genus1'', ''sp1'',
          ''AuthorA'', ''FALSCH'', ''1'', ''Alpha'', ''SecA'']]\<rparr>)
        (''2;Beta;Genus1;sp2;AuthorB;WAHR;1;Alpha;SecB'' @ [CHR 0x0A])
      = initial_state\<lparr>header_found := True, data_rows := example_rows\<rparr>"
    by (subst parse_data_line [OF _ s2 _ p2]) (simp_all add: initial_state_def example_rows_def)
  have "foldl parse_line initial_state
       [old_header @ [CHR 0x0A],
         ''1;Alpha;Genus1;sp1;AuthorA;FALSCH;1;Alpha;SecA'' @ [CHR 0x0A],
         ''2;Beta;Genus1;sp2;AuthorB;WAHR;1;Alpha;SecB'' @ [CHR 0x0A]]
      = initial_state\<lparr>header_found := True, data_rows := example_rows\<rparr>"
    by (simp only: foldl.simps parse_header_line d1 d2)
  then show ?thesis
    unfolding parse_csv_file_def l by (simp add: initial_state_def)
qed

lemma normalize_row1:
  "normalize_booleans ''7;Alpha;Genus1;sp1;FALSCH;7;Alpha;;'' = ''7;Alpha;Genus1;sp1;FALSE;7;Alpha;;''"
  by (simp add: normalize_booleans_def replace.simps)

lemma normalize_row2:
  "normalize_booleans ''42;Beta;Genus1;sp2;WAHR;7;Alpha;;'' = ''42;Beta;Genus1;sp2;TRUE;7;Alpha;;''"
  by (simp add: normalize_booleans_def replace.simps)

text \<open>The scenario of the specification, from the input text to the output text.\<close>

lemma example_text_output:
  "transform_species_csv example_text [18446744073709551615, 6, 6, 41]
     = Some (Inr (new_header @ [CHR 0x0A]
          @ ''7;Alpha;Genus1;sp1;FALSE;7;Alpha;;'' @ [CHR 0x0A]
          @ ''42;Beta;Genus1;sp2;TRUE;7;Alpha;;'' @ [CHR 0x0A]))"
proof -
  note t = boolean_normalization_whole_text
    [OF example_text_parsed example_id_map example_rows_transformed]
  from t [THEN conjunct1] t [THEN conjunct2, THEN conjunct1]
  have "transform_species_csv example_text [18446744073709551615, 6, 6, 41]
     = Some (Inr (write_lines (map normalize_booleans
               (map update_metadata_line [] @ [new_header] @ map (join CHR '';'')
                 [[''7'', ''Alpha'', ''Genus1'', ''sp1'', ''FALSCH'', ''7'', ''Alpha'', [], []],
                  [''42'', ''Beta'', ''Genus1'', ''sp2'', ''WAHR'', ''7'', ''Alpha'', [], []]]))))"
    by (simp only:)
  then show ?thesis
    by (simp add: normalize_new_header normalize_row1 normalize_row2 write_lines_def)
qed

lemma example_overlap_parsed:
  "parse_csv_file example_overlap = ([], [[''1'', ''N'', ''G'', ''WAHR'', ''A'', ''WAHR'', ''1'', ''N'']])"
proof -
  have l: "file_lines (universal_newlines example_overlap)
      = [old_header @ [CHR 0x0A], ''1;N;G;WAHR;A;WAHR;1;N'' @ [CHR 0x0A]]"
    by (simp add: example_overlap_def old_header_def)
  have s1: "strip (''1;N;G;WAHR;A;WAHR;1;N'' @ [CHR 0x0A]) = ''1;N;G;WAHR;A;WAHR;1;N''"
    by (rule strip_line) (simp_all add: is_space_def)
  have p1: "split_on CHR '';'' ''1;N;G;WAHR;A;WAHR;1;N''
      = [''1'', ''N'', ''G'', ''WAHR'', ''A'', ''WAHR'', ''1'', ''N'']"
    by simp
  have d1: "parse_line (initial_state\<lparr>header_found := True\<rparr>) (''1;N;G;WAHR;A;WAHR;1;N'' @ [CHR 0x0A])
      = initial_state\<lparr>header_found := True,
          data_rows := [[''1'', ''N'', ''G'', ''WAHR'', ''A'', ''WAHR'', ''1'', ''N'']]\<rparr>"
    by (subst parse_data_line [OF _ s1 _ p1]) (simp_all add: initial_state_def)
  have "foldl parse_line initial_state
       [old_header @ [CHR 0x0A], ''1;N;G;WAHR;A;WAHR;1;N'' @ [CHR 0x0A]]
      = initial_state\<lparr>header_found := True,
          data_rows := [[''1'', ''N'', ''G'', ''WAHR'', ''A'', ''WAHR'', ''1'', ''N'']]\<rparr>"
    by (simp only: foldl.simps parse_header_line d1)
  then show ?thesis
    unfolding parse_csv_file_def l by (simp add: initial_state_def)
qed

text \<open>
  C6. Not every occurrence of a token is replaced. Where two occurrences share a semicolon,
  the scan goes on behind the first and the second stays: the data row
  \<open>1;N;G;WAHR;A;WAHR;1;N\<close>, whose species epithet and synonym flag are both WAHR, is
  written with the synonym flag still WAHR, and the written text still holds \<open>;WAHR;\<close>.
\<close>

theorem overlapping_token_not_replaced:
  "transform_species_csv example_overlap [6]
     = Some (Inr (new_header @ [CHR 0x0A] @ ''7;N;G;TRUE;WAHR;7;N;;'' @ [CHR 0x0A]))
   \<and> contains '';WAHR;'' (new_header @ [CHR 0x0A] @ ''7;N;G;TRUE;WAHR;7;N;;'' @ [CHR 0x0A])
   \<and> split_on CHR '';'' ''7;N;G;TRUE;WAHR;7;N;;'' ! 4 = ''WAHR''"
proof -
  have g: "fresh_id {} [6] = Some (7, [])"
    by (simp add: fresh_id.simps generate_64bit_id_def randint_def)
  have b: "build_id_map [[''1'', ''N'', ''G'', ''WAHR'', ''A'', ''WAHR'', ''1'', ''N'']] [6]
      = Some ([1 \<mapsto> 7], {7}, [])"
    by (simp add: build_id_map_def first_pass_row_def row_ids_long py_int_1 assign_id_def g)
  have r: "transform_row [1 \<mapsto> 7] [''1'', ''N'', ''G'', ''WAHR'', ''A'', ''WAHR'', ''1'', ''N'']
      = Emitted [''7'', ''N'', ''G'', ''WAHR'', ''WAHR'', ''7'', ''N'', [], []]"
    by (simp add: transform_row_Emitted py_int_1 py_str_7)
  have t: "transform_rows [1 \<mapsto> 7] [[''1'', ''N'', ''G'', ''WAHR'', ''A'', ''WAHR'', ''1'', ''N'']]
      = Inr [[''7'', ''N'', ''G'', ''WAHR'', ''WAHR'', ''7'', ''N'', [], []]]"
    by (simp add: r)
  have n: "normalize_booleans ''7;N;G;WAHR;WAHR;7;N;;'' = ''7;N;G;TRUE;WAHR;7;N;;''"
    by (simp add: normalize_booleans_def replace.simps)
  have out: "transform_species_csv example_overlap [6]
     = Some (Inr (new_header @ [CHR 0x0A] @ ''7;N;G;TRUE;WAHR;7;N;;'' @ [CHR 0x0A]))"
  proof -
    from transform_output [OF example_overlap_parsed b t]
    have "transform_species_csv example_overlap [6]
       = Some (Inr (write_lines (map normalize_booleans
           (map update_metadata_line [] @ [new_header] @ map (join CHR '';'')
              [[''7'', ''N'', ''G'', ''WAHR'', ''WAHR'', ''7'', ''N'', [], []]]))))"
      by (simp only: serialize_lines normalize_booleans_write_lines)
    then show ?thesis
      by (simp add: normalize_new_header n write_lines_def)
  qed
  have c: "contains '';WAHR;'' (x @ [CHR 0x0A] @ ''7;N;G;TRUE;WAHR;7;N;;'' @ [CHR 0x0A])" for x
    unfolding contains_iff
    by (rule exI [of _ "x @ [CHR 0x0A] @ ''7;N;G;TRUE''"], rule exI [of _ "''7;N;;'' @ [CHR 0x0A]"]) simp
  have f: "split_on CHR '';'' ''7;N;G;TRUE;WAHR;7;N;;'' ! 4 = ''WAHR''"
    by simp
  from out c f show ?thesis by blast
qed

lemma parse_line_metadata:
  "set (metadata_lines (parse_line st raw)) \<subseteq> insert (strip raw) (set (metadata_lines st))"
  by (auto simp: parse_line_def Let_def)

lemma parse_lines_metadata:
  "set (metadata_lines (foldl parse_line st ls)) \<subseteq> set (metadata_lines st) \<union> strip ` set ls"
proof (induction ls arbitrary: st)
  case Nil
  then show ?case by simp
next
  case (Cons raw ls)
  from Cons.IH [of "parse_line st raw"] parse_line_metadata [of st raw] show ?case
    by auto
qed

lemma parse_csv_file_metadata:
  "set (fst (parse_csv_file text)) \<subseteq> strip ` set (file_lines (universal_newlines text))"
  using parse_lines_metadata [of initial_state "file_lines (universal_newlines text)"]
  by (simp add: parse_csv_file_def Let_def initial_state_def)

text \<open>
  C7, as the code has it. The metadata lines the parser stores are lines of the input
  with the white space at both ends removed. Before the boolean tokens are substituted, a
  stored metadata line that starts with SPECIES\_LU\_VERSION and has a semicolon is
  written as SPECIES\_LU, a semicolon and what follows the first semicolon; without a
  semicolon the key is replaced in the line; every other stored metadata line is written
  as it is stored. Each written line then goes through the substitution of the boolean
  tokens, which leaves a line without \<open>;WAHR;\<close> and \<open>;FALSCH;\<close> as it is.
\<close>

theorem metadata_passthrough:
  assumes "parse_csv_file text = (metadata, rows)"
    and "build_id_map rows g = Some (m, u, g')"
    and "transform_rows m rows = Inr rs"
  shows "set metadata \<subseteq> strip ` set (file_lines (universal_newlines text))
       \<and> transform_species_csv text g
           = Some (Inr (write_lines
               (map (\<lambda>l. normalize_booleans (update_metadata_line l)) metadata
                @ [new_header]
                @ map (\<lambda>r. normalize_booleans (join CHR '';'' r)) rs)))
       \<and> (startswith ''SPECIES_LU_VERSION'' line \<and> line = a @ CHR '';'' # b \<and> CHR '';'' \<notin> set a
            \<longrightarrow> update_metadata_line line = ''SPECIES_LU;'' @ b)
       \<and> (startswith ''SPECIES_LU_VERSION'' line \<and> CHR '';'' \<notin> set line
            \<longrightarrow> update_metadata_line line = replace ''SPECIES_LU_VERSION'' ''SPECIES_LU'' line)
       \<and> (\<not> startswith ''SPECIES_LU_VERSION'' line \<longrightarrow> update_metadata_line line = line)
       \<and> (\<not> contains '';WAHR;'' line \<and> \<not> contains '';FALSCH;'' line
            \<longrightarrow> normalize_booleans line = line)"
proof -
  from assms(1) parse_csv_file_metadata [of "text"]
  have stored: "set metadata \<subseteq> strip ` set (file_lines (universal_newlines text))"
    by simp
  from transform_output [OF assms]
  have "transform_species_csv text g
      = Some (Inr (write_lines (map normalize_booleans
          (map update_metadata_line metadata @ [new_header] @ map (join CHR '';'') rs))))"
    by (simp only: serialize_lines normalize_booleans_write_lines)
  then have out: "transform_species_csv text g
           = Some (Inr (write_lines
               (map (\<lambda>l. normalize_booleans (update_metadata_line l)) metadata
                @ [new_header]
                @ map (\<lambda>r. normalize_booleans (join CHR '';'' r)) rs)))"
    by (simp add: normalize_new_header comp_def)
  have key: "update_metadata_line line = ''SPECIES_LU;'' @ b"
    if "startswith ''SPECIES_LU_VERSION'' line" "line = a @ CHR '';'' # b" "CHR '';'' \<notin> set a"
    using that by (rule update_metadata_line_key)
  have fallback: "update_metadata_line line = replace ''SPECIES_LU_VERSION'' ''SPECIES_LU'' line"
    if "startswith ''SPECIES_LU_VERSION'' line" "CHR '';'' \<notin> set line"
    using that by (simp add: update_metadata_line_cases)
  have other: "update_metadata_line line = line" if "\<not> startswith ''SPECIES_LU_VERSION'' line"
    using that by (simp add: update_metadata_line_cases)
  have plain: "normalize_booleans line = line"
    if "\<not> contains '';WAHR;'' line" "\<not> contains '';FALSCH;'' line"
    using that by (rule normalize_booleans_unchanged)
  show ?thesis
  proof (intro conjI impI)
    show "set metadata \<subseteq> strip ` set (file_lines (universal_newlines text))"
      by (rule stored)
  next
    show "transform_species_csv text g
           = Some (Inr (write_lines
               (map (\<lambda>l. normalize_booleans (update_metadata_line l)) metadata
                @ [new_header]
                @ map (\<lambda>r. normalize_booleans (join CHR '';'' r)) rs)))"
      by (rule out)
  next
    assume "startswith ''SPECIES_LU_VERSION'' line \<and> line = a @ CHR '';'' # b \<and> CHR '';'' \<notin> set a"
    then show "update_metadata_line line = ''SPECIES_LU;'' @ b"
      by (intro key) (elim conjE, assumption)+
  next
    assume "startswith ''SPECIES_LU_VERSION'' line \<and> CHR '';'' \<notin> set line"
    then show "update_metadata_line line = replace ''SPECIES_LU_VERSION'' ''SPECIES_LU'' line"
      by (intro fallback) (elim conjE, assumption)+
  next
    assume "\<not> startswith ''SPECIES_LU_VERSION'' line"
    then show "update_metadata_line line = line" by (rule other)
  next
    assume "\<not> contains '';WAHR;'' line \<and> \<not> contains '';FALSCH;'' line"
    then show "normalize_booleans line = line"
      by (intro plain) (elim conjE, assumption)+
  qed
qed

lemma example_metadata_only_parsed:
  "parse_csv_file example_metadata_only = ([''NOTE;WAHR;x'', ''SPECIES_LU_VERSION;3.2''], [])"
proof -
  have h: "\<forall>l \<in> set (file_lines (universal_newlines example_metadata_only)). \<not> looks_like_header l"
    unfolding example_metadata_only_lines by (simp add: looks_like_header_def)
  have "\<not> header_found initial_state" by (simp add: initial_state_def)
  from parse_lines_no_header [OF this h] show ?thesis
    unfolding parse_csv_file_def example_metadata_only_stripped
    by (simp add: initial_state_def)
qed

lemma example_metadata_only_output:
  "transform_species_csv example_metadata_only []
     = Some (Inr (write_lines [''NOTE;TRUE;x'', ''SPECIES_LU;3.2'', new_header]))"
proof -
  have b: "build_id_map [] [] = Some (Map.empty, {}, [])"
    by (simp add: build_id_map_def)
  have t: "transform_rows Map.empty [] = Inr []" by simp
  from transform_output [OF example_metadata_only_parsed b t]
  have "transform_species_csv example_metadata_only []
      = Some (Inr (write_lines (map normalize_booleans
          (map update_metadata_line [''NOTE;WAHR;x'', ''SPECIES_LU_VERSION;3.2'']
             @ [new_header] @ map (join CHR '';'') []))))"
    by (simp only: serialize_lines normalize_booleans_write_lines)
  then show ?thesis
    by (simp add: update_metadata_line_cases normalize_note normalize_version normalize_new_header)
qed

lemma example_metadata_spaces_parsed:
  "parse_csv_file example_metadata_spaces = ([''NOTE;x''], [])"
proof -
  have l: "file_lines (universal_newlines example_metadata_spaces) = [''  NOTE;x  '' @ [CHR 0x0A]]"
    by (simp add: example_metadata_spaces_def)
  have s: "map strip [''  NOTE;x  '' @ [CHR 0x0A]] = [''NOTE;x'']"
    by (simp add: strip_def is_space_def)
  have h: "\<forall>l \<in> set (file_lines (universal_newlines example_metadata_spaces)). \<not> looks_like_header l"
    unfolding l by (simp add: looks_like_header_def)
  have "\<not> header_found initial_state" by (simp add: initial_state_def)
  from parse_lines_no_header [OF this h] show ?thesis
    unfolding parse_csv_file_def l s by (simp add: initial_state_def)
qed

theorem metadata_passthrough_witness:
  "transform_species_csv example_metadata_only []
     = Some (Inr (write_lines [''NOTE;TRUE;x'', ''SPECIES_LU;3.2'', new_header]))
   \<and> update_metadata_line ''SPECIES_LU_VERSION;3.2'' = ''SPECIES_LU;3.2''
   \<and> update_metadata_line ''NOTE;WAHR;x'' = ''NOTE;WAHR;x''
   \<and> update_metadata_line ''SPECIES_LU_VERSION 3.2'' = ''SPECIES_LU 3.2''
   \<and> normalize_booleans ''SPECIES_LU;3.2'' = ''SPECIES_LU;3.2''
   \<and> set [''NOTE;x''] \<subseteq> strip ` set (file_lines (universal_newlines example_metadata_spaces))
   \<and> transform_species_csv example_metadata_spaces []
       = Some (Inr (write_lines [''NOTE;x'', new_header]))"
proof -
  have b: "build_id_map [] [] = Some (Map.empty, {}, [])"
    by (simp add: build_id_map_def)
  have t: "transform_rows Map.empty [] = Inr []" by simp
  note m = metadata_passthrough [OF example_metadata_only_parsed b t]
  note sp = metadata_passthrough [OF example_metadata_spaces_parsed b t]
  from m [THEN conjunct2, THEN conjunct1]
  have one: "transform_species_csv example_metadata_only []
     = Some (Inr (write_lines [''NOTE;TRUE;x'', ''SPECIES_LU;3.2'', new_header]))"
    by (simp add: update_metadata_line_cases normalize_note normalize_version)
  have h2: "startswith ''SPECIES_LU_VERSION'' ''SPECIES_LU_VERSION;3.2''
      \<and> ''SPECIES_LU_VERSION;3.2'' = ''SPECIES_LU_VERSION'' @ CHR '';'' # ''3.2''
      \<and> CHR '';'' \<notin> set ''SPECIES_LU_VERSION''"
    by simp
  have two: "update_metadata_line ''SPECIES_LU_VERSION;3.2'' = ''SPECIES_LU;3.2''"
    using m [where line = "''SPECIES_LU_VERSION;3.2''" and a = "''SPECIES_LU_VERSION''"
        and b = "''3.2''", THEN conjunct2, THEN conjunct2, THEN conjunct1, THEN mp, OF h2]
    by simp
  have h3: "\<not> startswith ''SPECIES_LU_VERSION'' ''NOTE;WAHR;x''" by simp
  have three: "update_metadata_line ''NOTE;WAHR;x'' = ''NOTE;WAHR;x''"
    by (rule m [where line = "''NOTE;WAHR;x''", THEN conjunct2, THEN conjunct2, THEN conjunct2,
          THEN conjunct2, THEN conjunct1, THEN mp, OF h3])
  have h4: "startswith ''SPECIES_LU_VERSION'' ''SPECIES_LU_VERSION 3.2''
      \<and> CHR '';'' \<notin> set ''SPECIES_LU_VERSION 3.2''"
    by simp
  have "update_metadata_line ''SPECIES_LU_VERSION 3.2''
      = replace ''SPECIES_LU_VERSION'' ''SPECIES_LU'' ''SPECIES_LU_VERSION 3.2''"
    by (rule m [where line = "''SPECIES_LU_VERSION 3.2''", THEN conjunct2, THEN conjunct2,
          THEN conjunct2, THEN conjunct1, THEN mp, OF h4])
  then have four: "update_metadata_line ''SPECIES_LU_VERSION 3.2'' = ''SPECIES_LU 3.2''"
    by (simp add: replace.simps)
  have h5: "\<not> contains '';WAHR;'' ''SPECIES_LU;3.2'' \<and> \<not> contains '';FALSCH;'' ''SPECIES_LU;3.2''"
    by simp
  have five: "normalize_booleans ''SPECIES_LU;3.2'' = ''SPECIES_LU;3.2''"
    by (rule m [where line = "''SPECIES_LU;3.2''", THEN conjunct2, THEN conjunct2, THEN conjunct2,
          THEN conjunct2, THEN conjunct2, THEN mp, OF h5])
  have six: "set [''NOTE;x''] \<subseteq> strip ` set (file_lines (universal_newlines example_metadata_spaces))"
    by (rule sp [THEN conjunct1])
  have n: "normalize_booleans ''NOTE;x'' = ''NOTE;x''"
    by (rule normalize_booleans_unchanged) simp_all
  from sp [THEN conjunct2, THEN conjunct1]
  have seven: "transform_species_csv example_metadata_spaces []
       = Some (Inr (write_lines [''NOTE;x'', new_header]))"
    by (simp add: update_metadata_line_cases n)
  show ?thesis
    by (intro conjI one two three four five six seven)
qed

text \<open>
  C7 as the specification words it fails on a metadata line that holds a boolean
  token: the line does not start with the key, and is not in the output as it was.
\<close>

theorem metadata_token_counterexample:
  "parse_csv_file example_metadata_only = ([''NOTE;WAHR;x'', ''SPECIES_LU_VERSION;3.2''], [])
   \<and> \<not> startswith ''SPECIES_LU_VERSION'' ''NOTE;WAHR;x''
   \<and> transform_species_csv example_metadata_only []
       = Some (Inr (write_lines [''NOTE;TRUE;x'', ''SPECIES_LU;3.2'', new_header]))
   \<and> \<not> contains ''NOTE;WAHR;x'' (write_lines [''NOTE;TRUE;x'', ''SPECIES_LU;3.2'', new_header])"
proof -
  have "\<not> contains ''NOTE;WAHR;x'' (write_lines [''NOTE;TRUE;x'', ''SPECIES_LU;3.2'', new_header])"
    by (simp add: write_lines_def new_header_def)
  then show ?thesis
    by (intro conjI example_metadata_only_parsed example_metadata_only_output) simp_all
qed

section \<open>The rows that reach the output\<close>
















section \<open>A row whose valid identifier is absent\<close>







end
